theory Spec2Isabelle
  imports Complex_Main "HOL-Library.Multiset"
begin

section \<open>JavaScript values shared by the modules\<close>

text \<open>
  An error value: an \<open>Error\<close> object, or any other value from which a property can be
  read. Only its \<open>message\<close> is ever read by the code modelled here; the property may
  be undefined, which the source allows for with \<open>err.message?.includes(...)\<close>.
\<close>

datatype js_error = Error (message: "string option")

text \<open>
  What a promise is rejected with, or a \<open>throw\<close> throws: a value as above, or
  \<open>undefined\<close> or \<open>null\<close>, of which no property can be read: \<open>err.message\<close> then
  throws a TypeError.
\<close>

datatype rejection = Thrown js_error | Nullish

text \<open>\<open>String.prototype.includes\<close>: does \<open>sub\<close> occur in \<open>s\<close> as a contiguous piece.\<close>

fun starts_with :: "string \<Rightarrow> string \<Rightarrow> bool" where
  "starts_with s [] = True"
| "starts_with [] (c # cs) = False"
| "starts_with (d # ds) (c # cs) = (d = c \<and> starts_with ds cs)"

fun str_includes :: "string \<Rightarrow> string \<Rightarrow> bool" where
  "str_includes [] sub = starts_with [] sub"
| "str_includes (d # ds) sub = (starts_with (d # ds) sub \<or> str_includes ds sub)"

section \<open>JavaScript numbers\<close>

text \<open>
  A JavaScript number is an IEEE double. The model keeps what decides the behaviour of
  the code below: the two infinities and NaN, with the rules of the arithmetic for them.
  Finite values are rationals and are computed exactly, so rounding is left out (the
  specification compares averages up to floating-point tolerance), and there is a single
  zero, taken as positive where a sign of zero matters (division by zero).
\<close>

datatype number = Fin rat | PosInf | NegInf | NaN

fun js_neg :: "number \<Rightarrow> number" where
  "js_neg (Fin a) = Fin (- a)"
| "js_neg PosInf = NegInf"
| "js_neg NegInf = PosInf"
| "js_neg NaN = NaN"

fun js_add :: "number \<Rightarrow> number \<Rightarrow> number" where
  "js_add NaN y = NaN"
| "js_add x NaN = NaN"
| "js_add (Fin a) (Fin b) = Fin (a + b)"
| "js_add (Fin a) y = y"
| "js_add x (Fin b) = x"
| "js_add x y = (if x = y then x else NaN)"

definition js_sub :: "number \<Rightarrow> number \<Rightarrow> number" where
  "js_sub x y = js_add x (js_neg y)"

fun js_mul :: "number \<Rightarrow> number \<Rightarrow> number" where
  "js_mul NaN y = NaN"
| "js_mul x NaN = NaN"
| "js_mul (Fin a) (Fin b) = Fin (a * b)"
| "js_mul (Fin a) y = (if a = 0 then NaN else if 0 < a then y else js_neg y)"
| "js_mul x (Fin b) = (if b = 0 then NaN else if 0 < b then x else js_neg x)"
| "js_mul x y = (if x = y then PosInf else NegInf)"

fun js_div :: "number \<Rightarrow> number \<Rightarrow> number" where
  "js_div NaN y = NaN"
| "js_div x NaN = NaN"
| "js_div (Fin a) (Fin b) =
     (if b \<noteq> 0 then Fin (a / b)
      else if a = 0 then NaN else if 0 < a then PosInf else NegInf)"
| "js_div (Fin a) y = Fin 0"
| "js_div x (Fin b) = (if 0 \<le> b then x else js_neg x)"
| "js_div x y = NaN"

fun js_lt :: "number \<Rightarrow> number \<Rightarrow> bool" where
  "js_lt NaN y = False"
| "js_lt x NaN = False"
| "js_lt (Fin a) (Fin b) = (a < b)"
| "js_lt (Fin a) y = (y = PosInf)"
| "js_lt x (Fin b) = (x = NegInf)"
| "js_lt x y = (x = NegInf \<and> y = PosInf)"

definition js_gt :: "number \<Rightarrow> number \<Rightarrow> bool" where
  "js_gt x y = js_lt y x"

text \<open>\<open>Math.round\<close> rounds a half upwards.\<close>

definition math_round :: "number \<Rightarrow> number" where
  "math_round x = (case x of Fin q \<Rightarrow> Fin (of_int \<lfloor>q + 1 / 2\<rfloor>) | _ \<Rightarrow> x)"

text \<open>
  \<open>Math.min(...xs)\<close> and \<open>Math.max(...xs)\<close>: NaN as soon as one argument is NaN,
  and the neutral infinity for no argument at all.
\<close>

definition min2 :: "number \<Rightarrow> number \<Rightarrow> number" where
  "min2 a b = (if a = NaN \<or> b = NaN then NaN else if js_lt b a then b else a)"

definition max2 :: "number \<Rightarrow> number \<Rightarrow> number" where
  "max2 a b = (if a = NaN \<or> b = NaN then NaN else if js_lt a b then b else a)"

definition math_min :: "number list \<Rightarrow> number" where
  "math_min xs = foldl min2 PosInf xs"

definition math_max :: "number list \<Rightarrow> number" where
  "math_max xs = foldl max2 NegInf xs"

text \<open>\<open>v || 0\<close> for a possibly missing number: undefined, NaN and 0 are falsy.\<close>

definition or_zero :: "number option \<Rightarrow> number" where
  "or_zero v = (case v of None \<Rightarrow> Fin 0 | Some NaN \<Rightarrow> Fin 0 | Some x \<Rightarrow> x)"

section \<open>Process manager (process-manager.ts)\<close>

subsection \<open>Data and environment\<close>

record RunningProcess =
  name :: string
  port :: nat
  pid :: nat

record Service =
  service_id :: string
  cwd :: string
  command :: string
  service_port :: nat

text \<open>An entry of the list that \<open>findProcess('port', port)\<close> resolves to.\<close>

record found_process =
  found_pid :: nat
  found_name :: string

text \<open>
  What the tool does to the machine: it kills process trees and lets time pass.
  The answers of the operating system may depend on everything done so far.
\<close>

datatype event = Kill nat | Sleep nat

text \<open>The lines the process manager writes through the logger.\<close>

datatype log_line =
    StoppingAll
  | Stopped string nat
  | KilledOnPort nat nat
  | WaitingForPorts
  | AllStopped
  | DetectedRunning

text \<open>
  The tracking file \<open>.running-pids.json\<close>: missing, holding an array of entries as
  \<open>savePids\<close> writes them, holding text that \<open>JSON.parse\<close> rejects, or holding JSON
  that is no array and cannot be iterated (\<open>null\<close>, an object, a number).
\<close>

datatype pid_file = Absent | Tracked "RunningProcess list" | Unparsable | NotIterable

text \<open>
  \<open>threw\<close> records that an exception has left \<open>stopAll\<close>; nothing of \<open>stopAll\<close> runs
  after it, and it reaches whoever awaits \<open>stopAll\<close>.
\<close>

record world =
  history :: "event list"
  pidFile :: pid_file
  log :: "log_line list"
  threw :: bool

text \<open>
  The collaborators outside the tool:
  \<^item> \<open>findProcess\<close>: the port-ownership lookup; it resolves to a list or rejects;
  \<^item> \<open>treeKill\<close>: the error handed to the callback of \<open>treeKill(pid, 'SIGKILL', cb)\<close>, if any;
  \<^item> \<open>unlinkSync\<close>: the error thrown when the tracking file is deleted, if any.
\<close>

record os =
  findProcess :: "event list \<Rightarrow> nat \<Rightarrow> js_error + found_process list"
  treeKill :: "event list \<Rightarrow> nat \<Rightarrow> js_error option"
  unlinkSync :: "event list \<Rightarrow> js_error option"

definition now :: "world \<Rightarrow> nat" where
  "now w = sum_list (map (\<lambda>e. case e of Sleep ms \<Rightarrow> ms | Kill _ \<Rightarrow> 0) (history w))"

definition sleep :: "nat \<Rightarrow> world \<Rightarrow> world" where
  "sleep ms w = w\<lparr>history := history w @ [Sleep ms]\<rparr>"

definition logger_log :: "log_line \<Rightarrow> world \<Rightarrow> world" where
  "logger_log l w = w\<lparr>log := log w @ [l]\<rparr>"

subsection \<open>Port prober\<close>

definition isPortInUse :: "os \<Rightarrow> world \<Rightarrow> nat \<Rightarrow> bool" where
  "isPortInUse env w p =
     (case findProcess env (history w) p of
        Inr list \<Rightarrow> length list > 0
      | Inl _ \<Rightarrow> False)"

definition getProcessOnPort :: "os \<Rightarrow> world \<Rightarrow> nat \<Rightarrow> found_process option" where
  "getProcessOnPort env w p =
     (case findProcess env (history w) p of
        Inr list \<Rightarrow> (case list of [] \<Rightarrow> None | x # _ \<Rightarrow> Some x)
      | Inl _ \<Rightarrow> None)"

function waitForPortFree_loop :: "os \<Rightarrow> nat \<Rightarrow> nat \<Rightarrow> nat \<Rightarrow> world \<Rightarrow> bool \<times> world" where
  "waitForPortFree_loop env p timeoutMs startTime w =
     (if now w - startTime < timeoutMs then
        (if \<not> isPortInUse env w p then (True, w)
         else waitForPortFree_loop env p timeoutMs startTime (sleep 500 w))
      else (False, w))"
  by pat_completeness auto
termination
  by (relation "measure (\<lambda>(env, p, timeoutMs, startTime, w). timeoutMs + startTime - now w)")
     (auto simp: now_def sleep_def)

declare waitForPortFree_loop.simps [simp del]

definition waitForPortFree :: "os \<Rightarrow> nat \<Rightarrow> nat \<Rightarrow> world \<Rightarrow> bool \<times> world" where
  "waitForPortFree env p timeoutMs w = waitForPortFree_loop env p timeoutMs (now w) w"

subsection \<open>Killing and the tracking file\<close>

text \<open>
  \<open>killProcess\<close> resolves (\<open>Inr ()\<close>) or rejects (\<open>Inl err\<close>); either way the kill was
  requested.
\<close>

definition not_found_message :: "js_error \<Rightarrow> bool" where
  "not_found_message err =
     (case message err of
        None \<Rightarrow> False
      | Some m \<Rightarrow> str_includes m ''No such process'' \<or> str_includes m ''ESRCH'')"

definition killProcess :: "os \<Rightarrow> nat \<Rightarrow> world \<Rightarrow> (js_error + unit) \<times> world" where
  "killProcess env target w =
     (let w' = w\<lparr>history := history w @ [Kill target]\<rparr> in
      case treeKill env (history w) target of
        Some err \<Rightarrow> (if not_found_message err then (Inr (), w') else (Inl err, w'))
      | None \<Rightarrow> (Inr (), w'))"

text \<open>
  \<open>loadPids\<close> returns what \<open>JSON.parse\<close> gives, or the empty array when the file is
  missing or the parse throws. \<open>None\<close> stands for a parsed value that is no array.
\<close>

definition loadPids :: "world \<Rightarrow> RunningProcess list option" where
  "loadPids w =
     (case pidFile w of
        Tracked ps \<Rightarrow> Some ps
      | NotIterable \<Rightarrow> None
      | Unparsable \<Rightarrow> Some []
      | Absent \<Rightarrow> Some [])"

definition clearPids :: "os \<Rightarrow> world \<Rightarrow> world" where
  "clearPids env w =
     (if pidFile w \<noteq> Absent then
        (case unlinkSync env (history w) of
           None \<Rightarrow> w\<lparr>pidFile := Absent\<rparr>
         | Some _ \<Rightarrow> w)
      else w)"

subsection \<open>Teardown\<close>

text \<open>The first loop of \<open>stopAll\<close>: one kill per tracked entry, each in its own try/catch.\<close>

fun kill_saved :: "os \<Rightarrow> RunningProcess list \<Rightarrow> world \<Rightarrow> world" where
  "kill_saved env [] w = w"
| "kill_saved env (proc # rest) w =
     (case killProcess env (pid proc) w of
        (Inr _, w') \<Rightarrow> kill_saved env rest (logger_log (Stopped (name proc) (pid proc)) w')
      | (Inl _, w') \<Rightarrow> kill_saved env rest w')"

text \<open>The second loop: whatever holds a declared port is killed as well.\<close>

fun kill_on_ports :: "os \<Rightarrow> nat list \<Rightarrow> world \<Rightarrow> world" where
  "kill_on_ports env [] w = w"
| "kill_on_ports env (p # rest) w =
     (case getProcessOnPort env w p of
        Some proc \<Rightarrow>
          (case killProcess env (found_pid proc) w of
             (Inr _, w') \<Rightarrow> kill_on_ports env rest (logger_log (KilledOnPort p (found_pid proc)) w')
           | (Inl _, w') \<Rightarrow> kill_on_ports env rest w')
      | None \<Rightarrow> kill_on_ports env rest w)"

fun wait_ports_free :: "os \<Rightarrow> nat list \<Rightarrow> world \<Rightarrow> world" where
  "wait_ports_free env [] w = w"
| "wait_ports_free env (p # rest) w = wait_ports_free env rest (snd (waitForPortFree env p 5000 w))"

text \<open>
  \<open>stopAll\<close>. The loop over the saved entries is a \<open>for...of\<close>: over a value that
  cannot be iterated it throws a TypeError before the first kill, and nothing catches it.
\<close>

definition stopAll :: "os \<Rightarrow> Service list \<Rightarrow> world \<Rightarrow> world" where
  "stopAll env services w =
     (let w1 = logger_log StoppingAll w in
      case loadPids w1 of
        None \<Rightarrow> w1\<lparr>threw := True\<rparr>
      | Some savedPids \<Rightarrow>
          (let w2 = clearPids env (kill_saved env savedPids w1);
               allPorts = map service_port services;
               w3 = kill_on_ports env allPorts w2;
               w4 = (if length allPorts > 0
                     then wait_ports_free env allPorts (logger_log WaitingForPorts w3)
                     else w3)
           in logger_log AllStopped w4))"

text \<open>The scan of \<open>ensurePortsFree\<close>: it stops at the first port that answers.\<close>

fun ports_in_use :: "os \<Rightarrow> world \<Rightarrow> nat list \<Rightarrow> bool" where
  "ports_in_use env w [] = False"
| "ports_in_use env w (p # rest) = (if isPortInUse env w p then True else ports_in_use env w rest)"

definition ensurePortsFree :: "os \<Rightarrow> Service list \<Rightarrow> world \<Rightarrow> world" where
  "ensurePortsFree env services w =
     (let allPorts = map service_port services in
      if ports_in_use env w allPorts
      then stopAll env services (logger_log DetectedRunning w)
      else w)"


text \<open>How often \<open>stopAll\<close> was entered, read off its first log line.\<close>

definition stopAll_calls :: "world \<Rightarrow> nat" where
  "stopAll_calls w = length (filter (\<lambda>l. l = StoppingAll) (log w))"

subsection \<open>A concrete machine\<close>

text \<open>
  Three tracked processes; killing pid 100 fails with a permission error, pid 101 is
  already gone, pid 102 dies. Port 3000 answers, port 4000 does not, and the lookup for
  port 5000 fails.
\<close>

definition tracked0 :: "RunningProcess list" where
  "tracked0 =
     [\<lparr>name = ''frontend'', port = 3000, pid = 100\<rparr>,
      \<lparr>name = ''api'', port = 4000, pid = 101\<rparr>,
      \<lparr>name = ''db'', port = 5000, pid = 102\<rparr>]"

definition os0 :: os where
  "os0 =
     \<lparr>findProcess = (\<lambda>h p.
         if p = 3000 then Inr [\<lparr>found_pid = 100, found_name = ''node''\<rparr>]
         else if p = 5000 then Inl (Error (Some ''EACCES: permission denied''))
         else Inr []),
      treeKill = (\<lambda>h target.
         if target = 100 then Some (Error (Some ''EPERM: operation not permitted''))
         else if target = 101 then Some (Error (Some ''kill ESRCH''))
         else None),
      unlinkSync = (\<lambda>h. None)\<rparr>"

definition world0 :: world where
  "world0 = \<lparr>history = [], pidFile = Tracked tracked0, log = [], threw = False\<rparr>"


definition services0 :: "Service list" where
  "services0 =
     [\<lparr>service_id = ''api'', cwd = ''/srv/api'', command = ''yarn start'', service_port = 4000\<rparr>,
      \<lparr>service_id = ''frontend'', cwd = ''/srv/web'', command = ''yarn dev'', service_port = 3000\<rparr>]"

section \<open>Measurement runner (lib/lighthouse-runner.ts)\<close>

subsection \<open>Data and environment\<close>

record MeasurementResult =
  score :: number
  fcp :: number
  lcp :: number
  tbt :: number
  cls :: number
  si :: number

text \<open>
  What \<open>runSingleMeasurement\<close> reads from the report \<open>lhr\<close> of one audit: the
  performance category's score and five \<open>numericValue\<close>s, each possibly missing.
\<close>

record lighthouse_result =
  performance_score :: "number option"
  first_contentful_paint :: "number option"
  largest_contentful_paint :: "number option"
  total_blocking_time :: "number option"
  cumulative_layout_shift :: "number option"
  speed_index :: "number option"

record MeasureOptions =
  opt_url :: string
  opt_runs :: int
  opt_note :: "string option"
  opt_applyOverrides :: bool

text \<open>
  The browser and the audit engine, as far as the runner can observe them:
  \<^item> \<open>launch\<close>: the error of \<open>puppeteer.launch\<close>, if it fails;
  \<^item> \<open>page\<close>: what the step of the overrides throws, if it throws: the error of
    \<open>newPage\<close>, \<open>goto\<close> or \<open>close\<close>. An error of the override function itself is
    caught by \<open>applyCustomOverrides\<close> and changes nothing, unless it is \<open>undefined\<close> or
    \<open>null\<close>: then that \<open>catch\<close> throws a TypeError on \<open>error.message\<close>, which is an
    error of this step as well;
  \<^item> \<open>lighthouse\<close>: what the audit of a URL yields in run \<open>i\<close>, a report or an error;
  \<^item> \<open>close\<close>: the error of \<open>browser.close()\<close> in the \<open>finally\<close> block, if any.
\<close>

record chrome =
  launch :: "rejection option"
  page :: "rejection option"
  lighthouse :: "string \<Rightarrow> int \<Rightarrow> rejection + lighthouse_result"
  close :: "rejection option"

subsection \<open>One run\<close>

definition extract_metrics :: "lighthouse_result \<Rightarrow> MeasurementResult" where
  "extract_metrics lhr =
     \<lparr>score = math_round (js_mul (or_zero (performance_score lhr)) (Fin 100)),
      fcp = or_zero (first_contentful_paint lhr),
      lcp = or_zero (largest_contentful_paint lhr),
      tbt = or_zero (total_blocking_time lhr),
      cls = or_zero (cumulative_layout_shift lhr),
      si = or_zero (speed_index lhr)\<rparr>"

definition runSingleMeasurement :: "chrome \<Rightarrow> string \<Rightarrow> int \<Rightarrow> rejection + MeasurementResult" where
  "runSingleMeasurement browser u runNumber =
     (case lighthouse browser u runNumber of
        Inl e \<Rightarrow> Inl e
      | Inr lhr \<Rightarrow> Inr (extract_metrics lhr))"

subsection \<open>The runs and their reduction\<close>

definition average :: "number list \<Rightarrow> number" where
  "average arr =
     (if length arr = 0 then Fin 0
      else js_div (foldl js_add (Fin 0) arr) (Fin (of_nat (length arr))))"

record measurements =
  metrics :: "MeasurementResult list"
  averages :: MeasurementResult
  minScore :: number
  maxScore :: number

text \<open>
  The loop \<open>for (let i = 1; i <= options.runs; i++)\<close>; a failing audit leaves it with
  the error. The pause between two runs has no effect on the result.
\<close>

function run_loop ::
  "chrome \<Rightarrow> string \<Rightarrow> int \<Rightarrow> int \<Rightarrow> MeasurementResult list \<Rightarrow> rejection + MeasurementResult list" where
  "run_loop browser u i totalRuns acc =
     (if i \<le> totalRuns then
        (case runSingleMeasurement browser u i of
           Inl e \<Rightarrow> Inl e
         | Inr result \<Rightarrow> run_loop browser u (i + 1) totalRuns (acc @ [result]))
      else Inr acc)"
  by pat_completeness auto
termination
  by (relation "measure (\<lambda>(browser, u, i, totalRuns, acc). nat (totalRuns + 1 - i))") auto

declare run_loop.simps [simp del]

text \<open>
  The end of \<open>runMeasurements\<close>: the averages of the six fields and the object that is
  returned.
\<close>

definition summarise :: "MeasurementResult list \<Rightarrow> measurements" where
  "summarise ms =
     (let scores = map score ms in
      \<lparr>metrics = ms,
       averages =
         \<lparr>score = average scores,
          fcp = average (map fcp ms),
          lcp = average (map lcp ms),
          tbt = average (map tbt ms),
          cls = average (map cls ms),
          si = average (map si ms)\<rparr>,
       minScore = math_min scores,
       maxScore = math_max scores\<rparr>)"

text \<open>
  \<open>has_override\<close> says whether the configuration carries an \<open>applyOverrides\<close>
  function. The \<open>finally\<close> block closes the browser on every path after the launch;
  an error of the closing replaces the outcome of the body.
\<close>

definition runMeasurements :: "chrome \<Rightarrow> bool \<Rightarrow> MeasureOptions \<Rightarrow> rejection + measurements" where
  "runMeasurements browser has_override options =
     (case launch browser of
        Some e \<Rightarrow> Inl e
      | None \<Rightarrow>
          (let body =
             (case (if opt_applyOverrides options \<and> has_override then page browser else None) of
                Some e \<Rightarrow> Inl e
              | None \<Rightarrow>
                  (case run_loop browser (opt_url options) 1 (opt_runs options) [] of
                     Inl e \<Rightarrow> Inl e
                   | Inr ms \<Rightarrow> Inr (summarise ms)))
           in case close browser of Some e \<Rightarrow> Inl e | None \<Rightarrow> body))"

text \<open>The arithmetic mean, as the specification names it.\<close>

definition mean :: "rat list \<Rightarrow> rat" where
  "mean qs = sum_list qs / of_nat (length qs)"

subsection \<open>A concrete browser\<close>

text \<open>Two audits of a page: scores 0.8 and 0.9, no total blocking time reported.\<close>

definition report0 :: "rat \<Rightarrow> rat \<Rightarrow> lighthouse_result" where
  "report0 s t =
     \<lparr>performance_score = Some (Fin s),
      first_contentful_paint = Some (Fin t),
      largest_contentful_paint = Some (Fin (2 * t)),
      total_blocking_time = None,
      cumulative_layout_shift = Some (Fin (1 / 10)),
      speed_index = Some (Fin (3 * t))\<rparr>"

definition chrome0 :: chrome where
  "chrome0 =
     \<lparr>launch = None,
      page = None,
      lighthouse = (\<lambda>u j. if j = 1 then Inr (report0 (4 / 5) 1500) else Inr (report0 (9 / 10) 1200)),
      close = None\<rparr>"

definition options0 :: "int \<Rightarrow> MeasureOptions" where
  "options0 n =
     \<lparr>opt_url = ''https://example.com'', opt_runs = n, opt_note = None, opt_applyOverrides = False\<rparr>"

section \<open>Result log (lib/results.ts)\<close>

subsection \<open>Strings and paths\<close>

definition ends_with :: "string \<Rightarrow> string \<Rightarrow> bool" where
  "ends_with s suffix = starts_with (rev s) (rev suffix)"

text \<open>\<open>xs.join(sep)\<close>.\<close>

fun join_with :: "string \<Rightarrow> string list \<Rightarrow> string" where
  "join_with sep [] = []"
| "join_with sep [x] = x"
| "join_with sep (x # y # rest) = x @ sep @ join_with sep (y # rest)"

text \<open>
  \<open>name.replace(/[^a-zA-Z0-9-_]/g, '-').toLowerCase()\<close>, the file name of a tag or of a
  scenario id. A character is one code unit of the string.
\<close>

definition is_word_char :: "char \<Rightarrow> bool" where
  "is_word_char c =
     (c \<in> set (''abcdefghijklmnopqrstuvwxyz'' @ ''ABCDEFGHIJKLMNOPQRSTUVWXYZ''
               @ ''0123456789'' @ ''-_''))"

definition to_lower :: "char \<Rightarrow> char" where
  "to_lower c =
     (case map_of (zip ''ABCDEFGHIJKLMNOPQRSTUVWXYZ'' ''abcdefghijklmnopqrstuvwxyz'') c of
        Some l \<Rightarrow> l
      | None \<Rightarrow> c)"

definition safe_name :: "string \<Rightarrow> string" where
  "safe_name s = map to_lower (map (\<lambda>c. if is_word_char c then c else CHR ''-'') s)"

text \<open>
  \<open>path.join\<close> and \<open>path.dirname\<close> on paths that need no normalising: the segments are
  put together with a slash, and the directory is what precedes the last slash.
\<close>

definition path_join :: "string \<Rightarrow> string \<Rightarrow> string" where
  "path_join a b = a @ ''/'' @ b"

definition dirname :: "string \<Rightarrow> string" where
  "dirname p =
     (if CHR ''/'' \<notin> set p then ''.''
      else (let d = rev (tl (dropWhile (\<lambda>c. c \<noteq> CHR ''/'') (rev p)))
            in if d = [] then ''/'' else d))"

subsection \<open>Records\<close>

record MeasurementSummary =
  sum_url :: string
  sum_runs :: int
  sum_timestamp :: string
  sum_overridesApplied :: bool
  sum_note :: "string option"
  sum_averages :: MeasurementResult
  sum_minScore :: number
  sum_maxScore :: number
  sum_rawScores :: "number list"

text \<open>The object that \<open>appendToJsonlLog\<close> serialises: the summary and what it adds.\<close>

record log_entry =
  entry_summary :: MeasurementSummary
  entry_loggedAt :: string
  entry_tags :: "string list option"
  entry_scenarioId :: "string option"

record SaveResultsOptions =
  save_url :: string
  save_runs :: int
  save_averages :: MeasurementResult
  save_minScore :: number
  save_maxScore :: number
  save_rawScores :: "number list"
  save_overridesApplied :: bool
  save_note :: "string option"
  save_tags :: "string list option"
  save_scenarioId :: "string option"

record ComparisonResult =
  metric :: string
  before :: number
  after :: number
  diff :: number
  percentChange :: number
  improved :: bool

subsection \<open>The file system and the host\<close>

text \<open>
  Files by path with their text, the directories, and for each path the error that a
  write to it throws, if it throws. A failing call changes nothing.
\<close>

record fs =
  files :: "string \<Rightarrow> string option"
  dirs :: "string set"
  denied :: "string \<Rightarrow> js_error option"

text \<open>A call that changes the file system and returns or throws.\<close>

type_synonym 'a io = "fs \<Rightarrow> (js_error + 'a) \<times> fs"

definition io_return :: "'a \<Rightarrow> 'a io" where
  "io_return x = (\<lambda>s. (Inr x, s))"

text \<open>One statement after another: an exception of the first skips the second.\<close>

definition and_then :: "'a io \<Rightarrow> ('a \<Rightarrow> 'b io) \<Rightarrow> 'b io" where
  "and_then m f = (\<lambda>s. case m s of (Inl e, s') \<Rightarrow> (Inl e, s') | (Inr x, s') \<Rightarrow> f x s')"

definition existsSync :: "fs \<Rightarrow> string \<Rightarrow> bool" where
  "existsSync s p = (files s p \<noteq> None \<or> p \<in> dirs s)"

definition mkdirSync :: "string \<Rightarrow> unit io" where
  "mkdirSync d =
     (\<lambda>s. case denied s d of
             Some e \<Rightarrow> (Inl e, s)
           | None \<Rightarrow> (Inr (), s\<lparr>dirs := insert d (dirs s)\<rparr>))"

definition writeFileSync :: "string \<Rightarrow> string \<Rightarrow> unit io" where
  "writeFileSync p data =
     (\<lambda>s. case denied s p of
             Some e \<Rightarrow> (Inl e, s)
           | None \<Rightarrow> (Inr (), s\<lparr>files := (files s)(p \<mapsto> data)\<rparr>))"

definition appendFileSync :: "string \<Rightarrow> string \<Rightarrow> unit io" where
  "appendFileSync p data =
     (\<lambda>s. case denied s p of
             Some e \<Rightarrow> (Inl e, s)
           | None \<Rightarrow>
               (Inr (), s\<lparr>files := (files s)(p \<mapsto>
                  (case files s p of None \<Rightarrow> data | Some old \<Rightarrow> old @ data))\<rparr>))"

text \<open>The recurring \<open>if (!existsSync(dir)) mkdirSync(dir, { recursive: true })\<close>.\<close>

definition ensure_dir :: "string \<Rightarrow> unit io" where
  "ensure_dir d = (\<lambda>s. if \<not> existsSync s d then mkdirSync d s else (Inr (), s))"

text \<open>
  What the module takes from outside: the two resolved paths of the settings, the clock
  as read for the session timestamp and for \<open>loggedAt\<close>, and JSON in both directions
  (\<open>parse_summary\<close> is \<open>None\<close> where \<open>JSON.parse\<close> throws).
\<close>

record host =
  resultsPath :: string
  jsonlLogPath :: string
  timestampClock :: string
  loggedAtClock :: string
  stringify_summary :: "MeasurementSummary \<Rightarrow> string"
  stringify_entry :: "log_entry \<Rightarrow> string"
  parse_summary :: "string \<Rightarrow> MeasurementSummary option"

subsection \<open>Saving\<close>

definition ensureResultsDir :: "host \<Rightarrow> string io" where
  "ensureResultsDir h =
     and_then (ensure_dir (resultsPath h)) (\<lambda>_. io_return (resultsPath h))"

definition generateTimestamp :: "host \<Rightarrow> string" where
  "generateTimestamp h =
     take 19 (map (\<lambda>c. if c = CHR '':'' \<or> c = CHR ''.'' then CHR ''-'' else c) (timestampClock h))"

definition tag_log_path :: "host \<Rightarrow> string \<Rightarrow> string" where
  "tag_log_path h tag = path_join (path_join (resultsPath h) ''tags'') (safe_name tag @ ''.jsonl'')"

definition getLogPathForTag :: "host \<Rightarrow> string \<Rightarrow> string io" where
  "getLogPathForTag h tag =
     and_then (ensure_dir (path_join (resultsPath h) ''tags'')) (\<lambda>_. io_return (tag_log_path h tag))"

definition scenario_log_path :: "host \<Rightarrow> string \<Rightarrow> string" where
  "scenario_log_path h scenarioId =
     path_join (path_join (resultsPath h) ''scenarios'') (safe_name scenarioId @ ''.jsonl'')"

definition getLogPathForScenario :: "host \<Rightarrow> string \<Rightarrow> string io" where
  "getLogPathForScenario h scenarioId =
     and_then (ensure_dir (path_join (resultsPath h) ''scenarios''))
       (\<lambda>_. io_return (scenario_log_path h scenarioId))"

text \<open>A string is truthy when it is there and not empty; a tag list counts when it has an entry.\<close>

definition truthy :: "string option \<Rightarrow> string option" where
  "truthy v = (case v of Some s \<Rightarrow> (if s = [] then None else Some s) | None \<Rightarrow> None)"

definition some_tags :: "string list option \<Rightarrow> string list" where
  "some_tags tags = (case tags of Some ts \<Rightarrow> ts | None \<Rightarrow> [])"

definition json_line :: "host \<Rightarrow> MeasurementSummary \<Rightarrow> string list option \<Rightarrow> string option \<Rightarrow> string" where
  "json_line h summary tags scenarioId =
     stringify_entry h
       \<lparr>entry_summary = summary,
        entry_loggedAt = loggedAtClock h,
        entry_tags = (if length (some_tags tags) > 0 then tags else None),
        entry_scenarioId = truthy scenarioId\<rparr>
     @ [CHR 0x0A]"

fun append_tags :: "host \<Rightarrow> string list \<Rightarrow> string \<Rightarrow> unit io" where
  "append_tags h [] jsonLine = io_return ()"
| "append_tags h (tag # rest) jsonLine =
     and_then (getLogPathForTag h tag) (\<lambda>tagLogPath.
     and_then (appendFileSync tagLogPath jsonLine) (\<lambda>_.
     append_tags h rest jsonLine))"

definition appendToJsonlLog ::
  "host \<Rightarrow> MeasurementSummary \<Rightarrow> string list option \<Rightarrow> string option \<Rightarrow> unit io" where
  "appendToJsonlLog h summary tags scenarioId =
     (let mainLogPath = jsonlLogPath h;
          jsonLine = json_line h summary tags scenarioId
      in and_then (ensure_dir (dirname mainLogPath)) (\<lambda>_.
         and_then (appendFileSync mainLogPath jsonLine) (\<lambda>_.
         and_then (if length (some_tags tags) > 0
                   then append_tags h (some_tags tags) jsonLine
                   else io_return ()) (\<lambda>_.
         (case truthy scenarioId of
            Some sid \<Rightarrow>
              and_then (getLogPathForScenario h sid) (\<lambda>scenarioLogPath.
                appendFileSync scenarioLogPath jsonLine)
          | None \<Rightarrow> io_return ())))))"

definition session_dir_name :: "SaveResultsOptions \<Rightarrow> string \<Rightarrow> string" where
  "session_dir_name options timestamp =
     (let tagsPrefix =
            (if length (some_tags (save_tags options)) > 0
             then Some (join_with ''-'' (some_tags (save_tags options))) else None)
      in case truthy tagsPrefix of
           Some prefix \<Rightarrow>
             prefix @ ''--''
               @ (case truthy (save_scenarioId options) of Some sid \<Rightarrow> sid | None \<Rightarrow> ''adhoc'')
               @ ''--'' @ timestamp
         | None \<Rightarrow> timestamp)"

definition summary_of :: "SaveResultsOptions \<Rightarrow> string \<Rightarrow> MeasurementSummary" where
  "summary_of options timestamp =
     \<lparr>sum_url = save_url options,
      sum_runs = save_runs options,
      sum_timestamp = timestamp,
      sum_overridesApplied = save_overridesApplied options,
      sum_note = truthy (save_note options),
      sum_averages = save_averages options,
      sum_minScore = save_minScore options,
      sum_maxScore = save_maxScore options,
      sum_rawScores = save_rawScores options\<rparr>"

definition summary_path :: "host \<Rightarrow> SaveResultsOptions \<Rightarrow> string" where
  "summary_path h options =
     path_join (path_join (resultsPath h) (session_dir_name options (generateTimestamp h)))
       ''summary.json''"

definition saveResults :: "host \<Rightarrow> SaveResultsOptions \<Rightarrow> string io" where
  "saveResults h options =
     and_then (ensureResultsDir h) (\<lambda>resultsDir.
       (let timestamp = generateTimestamp h;
            sessionDir = path_join resultsDir (session_dir_name options timestamp);
            summary = summary_of options timestamp;
            summaryPath = path_join sessionDir ''summary.json''
        in and_then (mkdirSync sessionDir) (\<lambda>_.
           and_then (writeFileSync summaryPath (stringify_summary h summary)) (\<lambda>_.
           and_then (appendToJsonlLog h summary (save_tags options) (save_scenarioId options)) (\<lambda>_.
           io_return sessionDir)))))"

subsection \<open>Loading and comparing\<close>

definition loadSummary :: "host \<Rightarrow> fs \<Rightarrow> string \<Rightarrow> MeasurementSummary option" where
  "loadSummary h s pathOrTimestamp =
     (let summaryPath =
            (if \<not> str_includes pathOrTimestamp ''/'' \<and> \<not> str_includes pathOrTimestamp [CHR 0x5C]
             then path_join (path_join (resultsPath h) pathOrTimestamp) ''summary.json''
             else if \<not> ends_with pathOrTimestamp ''.json''
             then path_join pathOrTimestamp ''summary.json''
             else pathOrTimestamp)
      in case files s summaryPath of
           Some text \<Rightarrow> parse_summary h text
         | None \<Rightarrow> None)"

text \<open>
  \<open>compareResults\<close> prints; what it prints is the array \<open>comparisons\<close>, or the one error
  line naming the session that could not be loaded (\<open>Inl\<close> of its identifier).
\<close>

definition compareResults :: "host \<Rightarrow> fs \<Rightarrow> string \<Rightarrow> string \<Rightarrow> string + ComparisonResult list" where
  "compareResults h s path1 path2 =
     (case loadSummary h s path1 of
        None \<Rightarrow> Inl path1
      | Some summary1 \<Rightarrow>
          (case loadSummary h s path2 of
             None \<Rightarrow> Inl path2
           | Some summary2 \<Rightarrow>
               (let a1 = sum_averages summary1; a2 = sum_averages summary2 in
                Inr
                 [\<lparr>metric = ''Performance Score'',
                   before = score a1,
                   after = score a2,
                   diff = js_sub (score a2) (score a1),
                   percentChange = js_mul (js_div (js_sub (score a2) (score a1)) (score a1)) (Fin 100),
                   improved = js_gt (score a2) (score a1)\<rparr>,
                  \<lparr>metric = ''FCP (ms)'',
                   before = fcp a1,
                   after = fcp a2,
                   diff = js_sub (fcp a2) (fcp a1),
                   percentChange = js_mul (js_div (js_sub (fcp a2) (fcp a1)) (fcp a1)) (Fin 100),
                   improved = js_lt (fcp a2) (fcp a1)\<rparr>,
                  \<lparr>metric = ''LCP (ms)'',
                   before = lcp a1,
                   after = lcp a2,
                   diff = js_sub (lcp a2) (lcp a1),
                   percentChange = js_mul (js_div (js_sub (lcp a2) (lcp a1)) (lcp a1)) (Fin 100),
                   improved = js_lt (lcp a2) (lcp a1)\<rparr>,
                  \<lparr>metric = ''TBT (ms)'',
                   before = tbt a1,
                   after = tbt a2,
                   diff = js_sub (tbt a2) (tbt a1),
                   percentChange = js_mul (js_div (js_sub (tbt a2) (tbt a1)) (tbt a1)) (Fin 100),
                   improved = js_lt (tbt a2) (tbt a1)\<rparr>,
                  \<lparr>metric = ''CLS'',
                   before = cls a1,
                   after = cls a2,
                   diff = js_sub (cls a2) (cls a1),
                   percentChange = js_mul (js_div (js_sub (cls a2) (cls a1)) (cls a1)) (Fin 100),
                   improved = js_lt (cls a2) (cls a1)\<rparr>,
                  \<lparr>metric = ''Speed Index (ms)'',
                   before = si a1,
                   after = si a2,
                   diff = js_sub (si a2) (si a1),
                   percentChange = js_mul (js_div (js_sub (si a2) (si a1)) (si a1)) (Fin 100),
                   improved = js_lt (si a2) (si a1)\<rparr>])))"

text \<open>
  The comparison as the specification words it: \<open>diff = after - before\<close>,
  \<open>percentChange = diff / before * 100\<close>, and \<open>improved\<close> by the polarity of the metric.
\<close>

datatype polarity = HigherIsBetter | LowerIsBetter

definition spec_comparison :: "polarity \<Rightarrow> string \<Rightarrow> number \<Rightarrow> number \<Rightarrow> ComparisonResult" where
  "spec_comparison pol m b a =
     \<lparr>metric = m,
      before = b,
      after = a,
      diff = js_sub a b,
      percentChange = js_mul (js_div (js_sub a b) b) (Fin 100),
      improved = (case pol of HigherIsBetter \<Rightarrow> js_gt a b | LowerIsBetter \<Rightarrow> js_lt a b)\<rparr>"

subsection \<open>What a save adds to the logs\<close>

text \<open>The text of a file; a file that is not there has none.\<close>

definition content :: "fs \<Rightarrow> string \<Rightarrow> string" where
  "content s p = (case files s p of None \<Rightarrow> [] | Some text \<Rightarrow> text)"

text \<open>The line that \<open>saveResults\<close> hands to the logs.\<close>

definition saved_line :: "host \<Rightarrow> SaveResultsOptions \<Rightarrow> string" where
  "saved_line h options =
     json_line h (summary_of options (generateTimestamp h)) (save_tags options) (save_scenarioId options)"

text \<open>
  How many times a save appends that line to the file at path \<open>p\<close>: once if it is the
  global log, once for every listed tag whose log it is, once if it is the log of the
  scenario.
\<close>

definition tag_lines :: "host \<Rightarrow> string list \<Rightarrow> string \<Rightarrow> nat" where
  "tag_lines h ts p = length (filter (\<lambda>t. tag_log_path h t = p) ts)"

definition scenario_lines :: "host \<Rightarrow> string option \<Rightarrow> string \<Rightarrow> nat" where
  "scenario_lines h scenarioId p =
     (case truthy scenarioId of
        Some sid \<Rightarrow> (if p = scenario_log_path h sid then 1 else 0)
      | None \<Rightarrow> 0)"

definition appended_lines :: "host \<Rightarrow> string list option \<Rightarrow> string option \<Rightarrow> string \<Rightarrow> nat" where
  "appended_lines h tags scenarioId p =
     (if p = jsonlLogPath h then 1 else 0) + tag_lines h (some_tags tags) p
     + scenario_lines h scenarioId p"

text \<open>
  From \<open>s\<close> to \<open>s'\<close> every file outside \<open>X\<close> has gained \<open>k p\<close> copies of \<open>line\<close> at its
  end and nothing else, and the permissions are as before.
\<close>

definition writes :: "string set \<Rightarrow> string \<Rightarrow> (string \<Rightarrow> nat) \<Rightarrow> fs \<Rightarrow> fs \<Rightarrow> bool" where
  "writes X line k s s' =
     (denied s' = denied s
      \<and> (\<forall>p. p \<notin> X \<longrightarrow> content s' p = content s p @ concat (replicate (k p) line)))"

text \<open>
  A call that ended with \<open>r\<close> has appended at most \<open>K p\<close> copies to each file, and
  exactly \<open>K p\<close> if it returned.
\<close>

definition logged ::
  "string set \<Rightarrow> string \<Rightarrow> (string \<Rightarrow> nat) \<Rightarrow> (js_error + 'a) \<Rightarrow> fs \<Rightarrow> fs \<Rightarrow> bool" where
  "logged X line K r s s' =
     (\<exists>k. writes X line k s s' \<and> (\<forall>p. k p \<le> K p) \<and> (\<not> isl r \<longrightarrow> (\<forall>p. k p = K p)))"

text \<open>A call that returns on every file system on which no write is refused.\<close>

definition never_fails :: "'a io \<Rightarrow> bool" where
  "never_fails m =
     (\<forall>s. (\<forall>p. denied s p = None) \<longrightarrow>
          (\<exists>x s'. m s = (Inr x, s') \<and> (\<forall>p. denied s' p = None)))"

subsection \<open>A concrete host\<close>

definition summary_before :: MeasurementSummary where
  "summary_before =
     \<lparr>sum_url = ''https://example.com'', sum_runs = 5, sum_timestamp = ''2024-01-15T10-30-00'',
      sum_overridesApplied = False, sum_note = None,
      sum_averages = \<lparr>score = Fin 75, fcp = Fin 1500, lcp = Fin 2500, tbt = Fin 300,
                       cls = Fin (1 / 10), si = Fin 2000\<rparr>,
      sum_minScore = Fin 70, sum_maxScore = Fin 80, sum_rawScores = [Fin 75]\<rparr>"

definition summary_after :: MeasurementSummary where
  "summary_after =
     \<lparr>sum_url = ''https://example.com'', sum_runs = 5, sum_timestamp = ''2024-01-15T11-00-00'',
      sum_overridesApplied = False, sum_note = None,
      sum_averages = \<lparr>score = Fin 85, fcp = Fin 1200, lcp = Fin 2100, tbt = Fin 150,
                       cls = Fin (1 / 20), si = Fin 1800\<rparr>,
      sum_minScore = Fin 80, sum_maxScore = Fin 90, sum_rawScores = [Fin 85]\<rparr>"

definition host0 :: host where
  "host0 =
     \<lparr>resultsPath = ''/w/results'',
      jsonlLogPath = ''/w/results/measurements.jsonl'',
      timestampClock = ''2024-01-15T11:00:00.000Z'',
      loggedAtClock = ''2024-01-15T11:00:00.020Z'',
      stringify_summary = (\<lambda>m. ''summary of '' @ sum_url m),
      stringify_entry = (\<lambda>e. ''entry of '' @ sum_url (entry_summary e) @ '' at '' @ entry_loggedAt e),
      parse_summary = (\<lambda>text. if text = ''before'' then Some summary_before
                             else if text = ''after'' then Some summary_after else None)\<rparr>"

text \<open>Two stored sessions and a global log that already holds a line; no write is refused.\<close>

definition fs0 :: fs where
  "fs0 =
     \<lparr>files = [''/w/results/2024-01-15T10-30-00/summary.json'' \<mapsto> ''before'',
               ''/w/results/2024-01-15T11-00-00/summary.json'' \<mapsto> ''after'',
               ''/w/results/measurements.jsonl'' \<mapsto> ''earlier line''],
      dirs = {''/w/results''},
      denied = (\<lambda>p. None)\<rparr>"

definition save0 :: "string list option \<Rightarrow> string option \<Rightarrow> SaveResultsOptions" where
  "save0 tags scenarioId =
     \<lparr>save_url = ''https://example.com'', save_runs = 5,
      save_averages = sum_averages summary_after,
      save_minScore = Fin 80, save_maxScore = Fin 90, save_rawScores = [Fin 85],
      save_overridesApplied = False, save_note = None,
      save_tags = tags, save_scenarioId = scenarioId\<rparr>"

section \<open>Batch command (perf.ts)\<close>

subsection \<open>Data\<close>

record TestScenario =
  sc_id :: string
  sc_note :: string
  sc_url :: string
  sc_runs :: "int option"
  sc_applyOverrides :: "bool option"
  sc_enabled :: "bool option"
  sc_tags :: "string list option"

text \<open>An entry of \<open>batchResult.results\<close>: it carries a summary or an error message.\<close>

record scenario_result =
  res_scenario :: TestScenario
  res_summary :: "MeasurementSummary option"
  res_error :: "string option"
  res_startedAt :: string
  res_completedAt :: string

record BatchResult =
  batchId :: string
  startedAt :: string
  completedAt :: string
  batch_tags :: "string list option"
  totalScenarios :: nat
  completed :: nat
  failed :: nat
  duration :: nat
  results :: "scenario_result list"

text \<open>The parsed command line and the settings file, as far as the batch command reads them.\<close>

record cli_args =
  arg_runs :: int
  arg_tags :: "string list"
  arg_concurrency :: "int option"
  arg_scenarioId :: "string option"

record UserSettings =
  scenarios :: "TestScenario list option"
  notePrefix :: "string option"
  maxConcurrency :: "int option"

text \<open>
  What one scenario meets when it runs: its own browser, the host of the result log at
  the moment of saving, and the clock at its start and at its end.
\<close>

record task_env =
  task_browser :: chrome
  task_host :: host
  task_startedAt :: string
  task_completedAt :: string

text \<open>The clock of the batch itself: its id, its start, and the end with the elapsed time.\<close>

record batch_clock =
  clock_batchId :: string
  clock_startedAt :: string
  clock_completedAt :: string
  clock_duration :: nat

text \<open>The two things a scenario changes: the batch result and the disk.\<close>

record batch_state =
  batch :: BatchResult
  disk :: fs

subsection \<open>Filtering\<close>

text \<open>\<open>None\<close> where the command ends with \<open>process.exit(1)\<close>.\<close>

definition filtered_scenarios :: "cli_args \<Rightarrow> UserSettings \<Rightarrow> TestScenario list option" where
  "filtered_scenarios args settings =
     (let all_scenarios = (case scenarios settings of Some xs \<Rightarrow> xs | None \<Rightarrow> []) in
      if length all_scenarios = 0 then None
      else
        (let enabled = filter (\<lambda>s. sc_enabled s \<noteq> Some False) all_scenarios;
             tagged =
               (if length (arg_tags args) > 0
                then filter (\<lambda>s. case sc_tags s of
                                    None \<Rightarrow> False
                                  | Some ts \<Rightarrow> length ts \<noteq> 0 \<and> list_all (\<lambda>tag. tag \<in> set ts) (arg_tags args))
                       enabled
                else enabled)
         in if length (arg_tags args) > 0 \<and> length tagged = 0 then None
            else
              (case truthy (arg_scenarioId args) of
                 Some wanted \<Rightarrow>
                   (let chosen = filter (\<lambda>s. sc_id s = wanted) tagged
                    in if length chosen = 0 then None else Some chosen)
               | None \<Rightarrow> Some tagged)))"

text \<open>\<open>args.concurrency || settings.maxConcurrency || 1\<close>: zero is falsy.\<close>

definition resolve_concurrency :: "cli_args \<Rightarrow> UserSettings \<Rightarrow> int" where
  "resolve_concurrency args settings =
     (case arg_concurrency args of
        Some c \<Rightarrow> (if c \<noteq> 0 then c
                    else (case maxConcurrency settings of
                            Some m \<Rightarrow> (if m \<noteq> 0 then m else 1) | None \<Rightarrow> 1))
      | None \<Rightarrow> (case maxConcurrency settings of
                    Some m \<Rightarrow> (if m \<noteq> 0 then m else 1) | None \<Rightarrow> 1))"

subsection \<open>One scenario\<close>

definition scenario_runs :: "cli_args \<Rightarrow> TestScenario \<Rightarrow> int" where
  "scenario_runs args scenario =
     (case sc_runs scenario of Some n \<Rightarrow> (if n \<noteq> 0 then n else arg_runs args) | None \<Rightarrow> arg_runs args)"

definition full_note :: "UserSettings \<Rightarrow> TestScenario \<Rightarrow> string option" where
  "full_note settings scenario =
     (let prefix = (case notePrefix settings of Some p \<Rightarrow> p | None \<Rightarrow> [])
      in if sc_note scenario \<noteq> []
         then Some (if prefix \<noteq> [] then prefix @ '' '' @ sc_note scenario else sc_note scenario)
         else None)"

definition apply_overrides :: "TestScenario \<Rightarrow> bool" where
  "apply_overrides scenario = (case sc_applyOverrides scenario of Some b \<Rightarrow> b | None \<Rightarrow> False)"

definition scenario_options :: "cli_args \<Rightarrow> UserSettings \<Rightarrow> TestScenario \<Rightarrow> MeasureOptions" where
  "scenario_options args settings scenario =
     \<lparr>opt_url = sc_url scenario,
      opt_runs = scenario_runs args scenario,
      opt_note = full_note settings scenario,
      opt_applyOverrides = apply_overrides scenario\<rparr>"

text \<open>The \<open>catch\<close> branch of \<open>runScenario\<close>: the entry it pushes, and the push.\<close>

definition failure_entry :: "task_env \<Rightarrow> TestScenario \<Rightarrow> js_error \<Rightarrow> scenario_result" where
  "failure_entry env scenario err =
     \<lparr>res_scenario = scenario,
      res_summary = None,
      res_error = message err,
      res_startedAt = task_startedAt env,
      res_completedAt = task_completedAt env\<rparr>"

definition record_failure :: "task_env \<Rightarrow> TestScenario \<Rightarrow> js_error \<Rightarrow> BatchResult \<Rightarrow> BatchResult" where
  "record_failure env scenario err b =
     b\<lparr>results := results b @ [failure_entry env scenario err],
       failed := failed b + 1\<rparr>"

text \<open>The summary and the save options that the \<open>try\<close> branch builds, and its entry.\<close>

definition scenario_summary ::
  "task_env \<Rightarrow> cli_args \<Rightarrow> UserSettings \<Rightarrow> TestScenario \<Rightarrow> measurements \<Rightarrow> MeasurementSummary" where
  "scenario_summary env args settings scenario out =
     \<lparr>sum_url = sc_url scenario,
      sum_runs = scenario_runs args scenario,
      sum_timestamp = task_completedAt env,
      sum_overridesApplied = apply_overrides scenario,
      sum_note = full_note settings scenario,
      sum_averages = averages out,
      sum_minScore = minScore out,
      sum_maxScore = maxScore out,
      sum_rawScores = map score (metrics out)\<rparr>"

definition scenario_save ::
  "cli_args \<Rightarrow> UserSettings \<Rightarrow> TestScenario \<Rightarrow> measurements \<Rightarrow> SaveResultsOptions" where
  "scenario_save args settings scenario out =
     \<lparr>save_url = sc_url scenario,
      save_runs = scenario_runs args scenario,
      save_averages = averages out,
      save_minScore = minScore out,
      save_maxScore = maxScore out,
      save_rawScores = map score (metrics out),
      save_overridesApplied = apply_overrides scenario,
      save_note = full_note settings scenario,
      save_tags = sc_tags scenario,
      save_scenarioId = Some (sc_id scenario)\<rparr>"

definition success_entry ::
  "task_env \<Rightarrow> cli_args \<Rightarrow> UserSettings \<Rightarrow> TestScenario \<Rightarrow> measurements \<Rightarrow> scenario_result" where
  "success_entry env args settings scenario out =
     \<lparr>res_scenario = scenario,
      res_summary = Some (scenario_summary env args settings scenario out),
      res_error = None,
      res_startedAt = task_startedAt env,
      res_completedAt = task_completedAt env\<rparr>"

text \<open>
  \<open>runScenario\<close> from the moment its measurement has settled; nothing before that
  touches the batch result or the disk. The measurement and the save are inside the
  \<open>try\<close>; what the save wrote before it threw stays on the disk. The \<open>catch\<close> branch
  reads \<open>err.message\<close> while it builds the entry, before the push: of \<open>undefined\<close> or
  \<open>null\<close> that read throws, nothing is recorded and \<open>runScenario\<close> itself rejects, which
  is the result \<open>None\<close>. The file system throws \<open>Error\<close> objects only.
\<close>

definition runScenario ::
  "bool \<Rightarrow> cli_args \<Rightarrow> UserSettings \<Rightarrow> task_env \<Rightarrow> TestScenario \<Rightarrow> batch_state
   \<Rightarrow> batch_state option" where
  "runScenario has_override args settings env scenario st =
     (let options = scenario_options args settings scenario in
      case runMeasurements (task_browser env) has_override options of
        Inl Nullish \<Rightarrow> None
      | Inl (Thrown err) \<Rightarrow> Some (st\<lparr>batch := record_failure env scenario err (batch st)\<rparr>)
      | Inr out \<Rightarrow>
          (case saveResults (task_host env) (scenario_save args settings scenario out) (disk st) of
             (Inl err, disk') \<Rightarrow>
               Some (st\<lparr>batch := record_failure env scenario err (batch st), disk := disk'\<rparr>)
           | (Inr sessionDir, disk') \<Rightarrow>
               Some (st\<lparr>batch := (batch st)
                       \<lparr>results := results (batch st) @ [success_entry env args settings scenario out],
                        completed := completed (batch st) + 1\<rparr>,
                     disk := disk'\<rparr>)))"

subsection \<open>Running the scenarios\<close>

text \<open>
  How a batch can end: it finishes, or a rejecting \<open>runScenario\<close> aborts it (the state
  is the one reached by then; the command ends in \<open>main().catch\<close> with exit code 1), or
  it goes round its loop for ever.
\<close>

datatype batch_outcome = Finished batch_state | Aborted batch_state | Spins

text \<open>
  Sequential execution: \<open>for (const scenario of filteredScenarios) await runScenario(scenario)\<close>.
  A rejection leaves the loop, and the scenarios after it are never started.
\<close>

fun run_sequential ::
  "bool \<Rightarrow> cli_args \<Rightarrow> UserSettings \<Rightarrow> (task_env \<times> TestScenario) list \<Rightarrow> batch_state \<Rightarrow> batch_outcome" where
  "run_sequential ho args settings [] st = Finished st"
| "run_sequential ho args settings ((env, scenario) # rest) st =
     (case runScenario ho args settings env scenario st of
        None \<Rightarrow> Aborted st
      | Some st' \<Rightarrow> run_sequential ho args settings rest st')"

text \<open>
  The inner loop of the pool:
  \<open>while (running.length < concurrency && queue.length > 0)\<close> moves the head of the
  queue to the end of \<open>running\<close>.
\<close>

fun admit ::
  "int \<Rightarrow> (task_env \<times> TestScenario) list \<Rightarrow> (task_env \<times> TestScenario) list
   \<Rightarrow> (task_env \<times> TestScenario) list \<times> (task_env \<times> TestScenario) list" where
  "admit c [] running = ([], running)"
| "admit c (t # queue) running =
     (if int (length running) < c then admit c queue (running @ [t]) else (t # queue, running))"

text \<open>
  The outer loop. At \<open>await Promise.race(running)\<close> one of the scenarios in flight
  settles next; which one is not up to the program, so a schedule \<open>sched\<close> picks it from
  the number of scenarios settled so far. The settled scenario runs its \<open>try\<close> or
  \<open>catch\<close> branch and its promise is spliced out of \<open>running\<close>. When nothing is in
  flight and the bound admits nothing, the loop goes round without awaiting and never
  ends. A \<open>runScenario\<close> that rejects makes \<open>Promise.race\<close> reject, and the \<open>await\<close>
  throws. Scenarios that settle during one and the same
  \<open>await\<close> push their entries one after the other, as under a schedule that settles
  them one at a time: admission follows the queue, so settling them singly admits no
  scenario later.
\<close>

function run_parallel ::
  "bool \<Rightarrow> cli_args \<Rightarrow> UserSettings \<Rightarrow> (nat \<Rightarrow> nat) \<Rightarrow> int
   \<Rightarrow> (task_env \<times> TestScenario) list \<Rightarrow> (task_env \<times> TestScenario) list
   \<Rightarrow> batch_state \<Rightarrow> batch_outcome" where
  "run_parallel ho args settings sched c queue running st =
     (if length queue > 0 \<or> length running > 0 then
        (case admit c queue running of
           (queue', running') \<Rightarrow>
             (if length running' > 0 then
                (let k = sched (length (results (batch st))) mod length running' in
                 case runScenario ho args settings (fst (running' ! k)) (snd (running' ! k)) st of
                   None \<Rightarrow> Aborted st
                 | Some st' \<Rightarrow>
                     run_parallel ho args settings sched c queue'
                       (take k running' @ drop (Suc k) running') st')
              else Spins))
      else Finished st)"
  by pat_completeness auto
termination
proof -
  have admitted: "length queue' + length running' = length queue + length running"
    if "admit c queue running = (queue', running')"
    for c and queue running queue' running' :: "(task_env \<times> TestScenario) list"
    using that by (induction queue arbitrary: running) (auto split: if_splits)
  have spliced: "length x + (k mod length y + (length y - Suc (k mod length y))) < n"
    if "y \<noteq> []" and "length x + length y = n"
    for x y :: "(task_env \<times> TestScenario) list" and k n
  proof -
    have "k mod length y < length y"
      using that(1) by simp
    then show ?thesis
      using that(2) by linarith
  qed
  show ?thesis
    by (relation "measure (\<lambda>(ho, args, settings, sched, c, queue, running, st).
                    length queue + length running)")
      (auto dest!: sym [THEN admitted] intro: spliced)
qed

declare run_parallel.simps [simp del]

text \<open>The fresh \<open>batchResult\<close>, and each filtered scenario with what it meets.\<close>

definition new_batch :: "batch_clock \<Rightarrow> cli_args \<Rightarrow> TestScenario list \<Rightarrow> BatchResult" where
  "new_batch clock args filteredScenarios =
     \<lparr>batchId = clock_batchId clock,
      startedAt = clock_startedAt clock,
      completedAt = [],
      batch_tags = (if length (arg_tags args) > 0 then Some (arg_tags args) else None),
      totalScenarios = length filteredScenarios,
      completed = 0,
      failed = 0,
      duration = 0,
      results = []\<rparr>"

definition tasks_of :: "(nat \<Rightarrow> task_env) \<Rightarrow> TestScenario list \<Rightarrow> (task_env \<times> TestScenario) list" where
  "tasks_of envs filteredScenarios = zip (map envs [0..<length filteredScenarios]) filteredScenarios"

text \<open>
  The batch from the creation of \<open>batchResult\<close> to its completion, for the filtered
  scenarios and the concurrency bound; \<open>envs i\<close> is what the \<open>i\<close>-th of them meets.
\<close>

definition execute_batch ::
  "bool \<Rightarrow> cli_args \<Rightarrow> UserSettings \<Rightarrow> batch_clock \<Rightarrow> (nat \<Rightarrow> task_env) \<Rightarrow> (nat \<Rightarrow> nat)
   \<Rightarrow> int \<Rightarrow> TestScenario list \<Rightarrow> fs \<Rightarrow> batch_outcome" where
  "execute_batch ho args settings clock envs sched concurrency filteredScenarios d =
     (let st = \<lparr>batch = new_batch clock args filteredScenarios, disk = d\<rparr>;
          tasks = tasks_of envs filteredScenarios;
          processed =
            (if concurrency = 1 then run_sequential ho args settings tasks st
             else run_parallel ho args settings sched concurrency tasks [] st)
      in case processed of
           Finished st' \<Rightarrow>
             Finished (st'\<lparr>batch := (batch st')
                         \<lparr>duration := clock_duration clock,
                          completedAt := clock_completedAt clock\<rparr>\<rparr>)
         | Aborted st' \<Rightarrow> Aborted st'
         | Spins \<Rightarrow> Spins)"

text \<open>The command: \<open>None\<close> for \<open>process.exit(1)\<close>, otherwise what the execution yields.\<close>

definition batch_command ::
  "bool \<Rightarrow> cli_args \<Rightarrow> UserSettings \<Rightarrow> batch_clock \<Rightarrow> (nat \<Rightarrow> task_env) \<Rightarrow> (nat \<Rightarrow> nat)
   \<Rightarrow> fs \<Rightarrow> batch_outcome option" where
  "batch_command ho args settings clock envs sched d =
     (case filtered_scenarios args settings of
        None \<Rightarrow> None
      | Some filteredScenarios \<Rightarrow>
          Some (execute_batch ho args settings clock envs sched
                  (resolve_concurrency args settings) filteredScenarios d))"

subsection \<open>A concrete batch\<close>

text \<open>
  Three scenarios; the browser of the second one does not start. The schedule lets the
  scenario that was admitted last settle first.
\<close>

definition scenario0 :: "string \<Rightarrow> string list option \<Rightarrow> TestScenario" where
  "scenario0 sid tags =
     \<lparr>sc_id = sid, sc_note = ''baseline'', sc_url = ''https://example.com/'' @ sid,
      sc_runs = Some 2, sc_applyOverrides = None, sc_enabled = None, sc_tags = tags\<rparr>"

definition scenarios0 :: "TestScenario list" where
  "scenarios0 = [scenario0 ''home'' (Some [''prod'']), scenario0 ''cart'' None, scenario0 ''search'' None]"

definition envs0 :: "nat \<Rightarrow> task_env" where
  "envs0 i =
     \<lparr>task_browser =
        (if i = 1
         then chrome0\<lparr>launch := Some (Thrown (Error (Some ''Failed to launch the browser process'')))\<rparr>
         else chrome0),
      task_host = host0,
      task_startedAt = ''2024-01-15T10:59:00.000Z'',
      task_completedAt = ''2024-01-15T11:00:00.000Z''\<rparr>"


definition args0 :: cli_args where
  "args0 = \<lparr>arg_runs = 5, arg_tags = [], arg_concurrency = Some 2, arg_scenarioId = None\<rparr>"

definition settings0 :: UserSettings where
  "settings0 = \<lparr>scenarios = Some scenarios0, notePrefix = None, maxConcurrency = None\<rparr>"

definition clock0 :: batch_clock where
  "clock0 =
     \<lparr>clock_batchId = ''2024-01-15T10-59-00-000Z'', clock_startedAt = ''2024-01-15T10:59:00.000Z'',
      clock_completedAt = ''2024-01-15T11:03:00.000Z'', clock_duration = 240000\<rparr>"

definition sched0 :: "nat \<Rightarrow> nat" where
  "sched0 n = 1"

subsection \<open>Notions for the properties of the batch\<close>

text \<open>
  A file-system call all of whose exceptions are errors that the file system holds for
  some path, and which leaves the permissions as they are.
\<close>

definition errs_refused :: "'a io \<Rightarrow> bool" where
  "errs_refused m =
     (\<forall>s r s'. m s = (r, s') \<longrightarrow>
        denied s' = denied s \<and> (\<forall>e. r = Inl e \<longrightarrow> (\<exists>q. denied s q = Some e)))"

text \<open>
  The scenarios of a list settling one after the other, in the order of the list;
  \<open>None\<close> when one of them rejects.
\<close>

fun settle_all ::
  "bool \<Rightarrow> cli_args \<Rightarrow> UserSettings \<Rightarrow> (task_env \<times> TestScenario) list \<Rightarrow> batch_state
   \<Rightarrow> batch_state option" where
  "settle_all ho args settings [] st = Some st"
| "settle_all ho args settings (t # rest) st =
     (case runScenario ho args settings (fst t) (snd t) st of
        None \<Rightarrow> None
      | Some st' \<Rightarrow> settle_all ho args settings rest st')"

text \<open>The measurement of a task, and the line its save hands to the logs.\<close>

definition task_measurement ::
  "bool \<Rightarrow> cli_args \<Rightarrow> UserSettings \<Rightarrow> task_env \<times> TestScenario \<Rightarrow> rejection + measurements" where
  "task_measurement ho args settings t =
     runMeasurements (task_browser (fst t)) ho (scenario_options args settings (snd t))"

text \<open>
  What holds of a task whose measurement returned \<open>out\<close>, of the entries \<open>es\<close> and of the
  disk \<open>s\<close> at the end: its entry is the completed one and its line is in every log file
  its save appends to, or its save was refused and its entry is the failed one with the
  error of the file system.
\<close>

definition ran_to_completion ::
  "cli_args \<Rightarrow> UserSettings \<Rightarrow> task_env \<times> TestScenario \<Rightarrow> measurements
   \<Rightarrow> scenario_result \<Rightarrow> fs \<Rightarrow> (string \<Rightarrow> js_error option) \<Rightarrow> bool" where
  "ran_to_completion args settings t out e s refusals =
     ((e = success_entry (fst t) args settings (snd t) out
        \<and> (\<forall>p. ends_with p ''.jsonl''
                \<and> 0 < appended_lines (task_host (fst t)) (sc_tags (snd t)) (Some (sc_id (snd t))) p
              \<longrightarrow> str_includes (content s p)
                    (saved_line (task_host (fst t)) (scenario_save args settings (snd t) out))))
      \<or> (\<exists>q serr. refusals q = Some serr \<and> e = failure_entry (fst t) (snd t) serr))"

section \<open>Properties of the process manager\<close>

subsection \<open>What each step leaves untouched\<close>


lemma killProcess_log: "log (snd (killProcess env target w)) = log w"
  by (simp add: killProcess_def Let_def split: option.splits)




lemma kill_saved_calls: "stopAll_calls (kill_saved env procs w) = stopAll_calls w"
proof (induction procs arbitrary: w)
  case Nil
  show ?case by simp
next
  case (Cons proc rest)
  obtain r w' where k: "killProcess env (pid proc) w = (r, w')"
    by (cases "killProcess env (pid proc) w")
  have h: "log w' = log w"
    using killProcess_log [of env "pid proc" w] k by simp
  show ?case
    using Cons.IH h k by (cases r) (simp_all add: logger_log_def stopAll_calls_def)
qed


lemma kill_on_ports_calls: "stopAll_calls (kill_on_ports env ps w) = stopAll_calls w"
proof (induction ps arbitrary: w)
  case Nil
  show ?case by simp
next
  case (Cons p rest)
  show ?case
  proof (cases "getProcessOnPort env w p")
    case None
    then show ?thesis using Cons.IH by simp
  next
    case (Some proc)
    obtain r w' where k: "killProcess env (found_pid proc) w = (r, w')"
      by (cases "killProcess env (found_pid proc) w")
    have h: "log w' = log w"
      using killProcess_log [of env "found_pid proc" w] k by simp
    show ?thesis
      using Cons.IH h k Some by (cases r) (simp_all add: logger_log_def stopAll_calls_def)
  qed
qed

lemma waitForPortFree_loop_frame:
  "pidFile (snd (waitForPortFree_loop env p t s w)) = pidFile w
   \<and> log (snd (waitForPortFree_loop env p t s w)) = log w"
proof (induction env p t s w rule: waitForPortFree_loop.induct)
  case (1 env p t s w)
  show ?case
  proof (cases "now w - s < t \<and> isPortInUse env w p")
    case True
    then show ?thesis
      using "1.IH" by (subst (1 2) waitForPortFree_loop.simps) (simp add: sleep_def)
  next
    case False
    then show ?thesis
      by (subst (1 2) waitForPortFree_loop.simps) auto
  qed
qed

lemma wait_ports_free_frame:
  "pidFile (wait_ports_free env ps w) = pidFile w \<and> log (wait_ports_free env ps w) = log w"
  by (induction ps arbitrary: w) (simp_all add: waitForPortFree_def waitForPortFree_loop_frame)

lemma clearPids_log: "log (clearPids env w) = log w"
  by (simp add: clearPids_def split: option.splits)


subsection \<open>The teardown, phase by phase\<close>











text \<open>
  On a tracking file whose JSON cannot be iterated, \<open>for (const proc of savedPids)\<close>
  throws before the first kill: nothing is killed, the file stays, and the exception
  leaves \<open>stopAll\<close>.
\<close>

lemma stopAll_not_iterable:
  assumes "loadPids w = None"
  shows "stopAll env services w = (logger_log StoppingAll w)\<lparr>threw := True\<rparr>"
proof -
  have "loadPids (logger_log StoppingAll w) = None"
    using assms by (simp add: loadPids_def logger_log_def)
  then show ?thesis
    by (simp add: stopAll_def Let_def)
qed




subsection \<open>The port prober and the precondition helper\<close>

text \<open>
  C8. For every port and every outcome of the port-ownership lookup, a rejected lookup
  included, \<open>isPortInUse\<close> yields a boolean: true exactly when the lookup resolves to a
  non-empty list, false whenever the lookup rejects. The function has no error result at
  all, so it never throws.
\<close>

theorem isPortInUse_total:
  "isPortInUse env w p = (\<exists>list. findProcess env (history w) p = Inr list \<and> list \<noteq> [])
   \<and> ((\<exists>err. findProcess env (history w) p = Inl err) \<longrightarrow> \<not> isPortInUse env w p)"
  by (auto simp: isPortInUse_def split: sum.splits)

theorem isPortInUse_total_witness:
  "isPortInUse os0 world0 3000 \<and> \<not> isPortInUse os0 world0 4000
   \<and> (\<exists>err. findProcess os0 (history world0) 5000 = Inl err) \<and> \<not> isPortInUse os0 world0 5000"
proof -
  have e: "\<exists>err. findProcess os0 (history world0) 5000 = Inl err"
    by (simp add: os0_def)
  have a: "isPortInUse os0 world0 3000"
    using isPortInUse_total [of os0 world0 3000] by (simp add: os0_def)
  have b: "\<not> isPortInUse os0 world0 4000"
    using isPortInUse_total [of os0 world0 4000] by (simp add: os0_def)
  have c: "\<not> isPortInUse os0 world0 5000"
    using isPortInUse_total [of os0 world0 5000] e by blast
  show ?thesis using a b c e by simp
qed

lemma stopAll_calls_eq: "stopAll_calls (stopAll env services w) = Suc (stopAll_calls w)"
proof (cases "loadPids (logger_log StoppingAll w)")
  case None
  then show ?thesis
    by (simp add: stopAll_def Let_def stopAll_calls_def logger_log_def)
next
  case (Some savedPids)
  define w1 where "w1 = logger_log StoppingAll w"
  define w2 where "w2 = clearPids env (kill_saved env savedPids w1)"
  define w3 where "w3 = kill_on_ports env (map service_port services) w2"
  define w4 where
    "w4 = (if length (map service_port services) > 0
           then wait_ports_free env (map service_port services) (logger_log WaitingForPorts w3)
           else w3)"
  have r: "stopAll env services w = logger_log AllStopped w4"
    using Some by (simp add: stopAll_def Let_def w1_def w2_def w3_def w4_def)
  have c1: "stopAll_calls w1 = Suc (stopAll_calls w)"
    by (simp add: w1_def stopAll_calls_def logger_log_def)
  have c2: "stopAll_calls w2 = stopAll_calls w1"
    using kill_saved_calls [of env savedPids w1]
    by (simp add: w2_def stopAll_calls_def clearPids_log)
  have c3: "stopAll_calls w3 = stopAll_calls w2"
    by (simp add: w3_def kill_on_ports_calls)
  have "log w4 = log w3 \<or> log w4 = log w3 @ [WaitingForPorts]"
    by (simp add: w4_def wait_ports_free_frame logger_log_def)
  then have c4: "stopAll_calls w4 = stopAll_calls w3"
    by (auto simp: stopAll_calls_def)
  have "stopAll_calls (logger_log AllStopped w4) = stopAll_calls w4"
    by (simp add: stopAll_calls_def logger_log_def)
  then show ?thesis using r c1 c2 c3 c4 by simp
qed

lemma ports_in_use_iff: "ports_in_use env w ps = (\<exists>p\<in>set ps. isPortInUse env w p)"
  by (induction ps) auto

text \<open>
  C9. \<open>ensurePortsFree\<close> runs the full teardown \<open>stopAll\<close> if and only if at least one
  declared service port answers as in use: if one does, the call is \<open>stopAll\<close> after the
  warning line, otherwise nothing at all happens, and the number of teardowns started
  goes up by one in the first case and by none in the second. With no service declared
  no teardown is started.
\<close>

theorem ensurePortsFree_teardown_iff:
  "ensurePortsFree env services w =
     (if \<exists>s\<in>set services. isPortInUse env w (service_port s)
      then stopAll env services (logger_log DetectedRunning w)
      else w)
   \<and> stopAll_calls (ensurePortsFree env services w) =
     stopAll_calls w + (if \<exists>s\<in>set services. isPortInUse env w (service_port s) then 1 else 0)
   \<and> ensurePortsFree env [] w = w"
proof (intro conjI)
  show e: "ensurePortsFree env services w =
     (if \<exists>s\<in>set services. isPortInUse env w (service_port s)
      then stopAll env services (logger_log DetectedRunning w)
      else w)"
    by (simp add: ensurePortsFree_def Let_def ports_in_use_iff)
  have "stopAll_calls (stopAll env services (logger_log DetectedRunning w)) = Suc (stopAll_calls w)"
    by (simp add: stopAll_calls_eq) (simp add: stopAll_calls_def logger_log_def)
  then show "stopAll_calls (ensurePortsFree env services w) =
     stopAll_calls w + (if \<exists>s\<in>set services. isPortInUse env w (service_port s) then 1 else 0)"
    using e by simp
  show "ensurePortsFree env [] w = w"
    by (simp add: ensurePortsFree_def)
qed

theorem ensurePortsFree_teardown_iff_witness:
  "(\<exists>s\<in>set services0. isPortInUse os0 world0 (service_port s))
   \<and> stopAll_calls (ensurePortsFree os0 services0 world0) = 1
   \<and> \<not> (\<exists>s\<in>set (butlast services0). isPortInUse os0 world0 (service_port s))
   \<and> stopAll_calls (ensurePortsFree os0 (butlast services0) world0) = 0"
proof -
  have u: "\<exists>s\<in>set services0. isPortInUse os0 world0 (service_port s)"
    by (simp add: services0_def isPortInUse_def os0_def)
  have f: "\<not> (\<exists>s\<in>set (butlast services0). isPortInUse os0 world0 (service_port s))"
    by (simp add: services0_def isPortInUse_def os0_def)
  have z: "stopAll_calls world0 = 0"
    by (simp add: stopAll_calls_def world0_def)
  have a: "stopAll_calls (ensurePortsFree os0 services0 world0) = 1"
    using ensurePortsFree_teardown_iff [of os0 services0 world0, THEN conjunct2, THEN conjunct1] u z
    by simp
  have b: "stopAll_calls (ensurePortsFree os0 (butlast services0) world0) = 0"
    using ensurePortsFree_teardown_iff [of os0 "butlast services0" world0, THEN conjunct2, THEN conjunct1]
      f z
    by simp
  show ?thesis using a b u f by simp
qed

section \<open>Properties of the measurement runner\<close>

subsection \<open>Sums, minima and maxima of finite samples\<close>

lemma foldl_js_add_Fin: "foldl js_add (Fin a) (map Fin qs) = Fin (a + sum_list qs)"
  by (induction qs arbitrary: a) (simp_all add: add.assoc)

lemma average_mean: "qs \<noteq> [] \<Longrightarrow> average (map Fin qs) = Fin (mean qs)"
  by (simp add: average_def foldl_js_add_Fin mean_def)

lemma foldl_min2_Fin: "foldl min2 (Fin a) (map Fin qs) = Fin (Min (insert a (set qs)))"
proof (induction qs arbitrary: a)
  case Nil
  show ?case by simp
next
  case (Cons q qs)
  have "min2 (Fin a) (Fin q) = Fin (min a q)"
    by (simp add: min2_def min_def)
  moreover have "Min (insert (min a q) (set qs)) = Min (insert a (insert q (set qs)))"
    by (cases "qs = []") (simp_all add: min.assoc)
  ultimately show ?case using Cons.IH [of "min a q"] by simp
qed

lemma math_min_Fin: "qs \<noteq> [] \<Longrightarrow> math_min (map Fin qs) = Fin (Min (set qs))"
  by (cases qs) (simp_all add: math_min_def foldl_min2_Fin min2_def)

lemma foldl_max2_Fin: "foldl max2 (Fin a) (map Fin qs) = Fin (Max (insert a (set qs)))"
proof (induction qs arbitrary: a)
  case Nil
  show ?case by simp
next
  case (Cons q qs)
  have "max2 (Fin a) (Fin q) = Fin (max a q)"
    by (simp add: max2_def max_def)
  moreover have "Max (insert (max a q) (set qs)) = Max (insert a (insert q (set qs)))"
    by (cases "qs = []") (simp_all add: max.assoc)
  ultimately show ?case using Cons.IH [of "max a q"] by simp
qed

lemma math_max_Fin: "qs \<noteq> [] \<Longrightarrow> math_max (map Fin qs) = Fin (Max (set qs))"
  by (cases qs) (simp_all add: math_max_def foldl_max2_Fin max2_def)

subsection \<open>The run loop\<close>

lemma run_loop_all:
  "(\<forall>j. i \<le> j \<and> j \<le> totalRuns \<longrightarrow> runSingleMeasurement browser u j = Inr (f j))
   \<Longrightarrow> run_loop browser u i totalRuns acc = Inr (acc @ map f [i..totalRuns])"
proof (induction browser u i totalRuns acc rule: run_loop.induct)
  case (1 browser u i totalRuns acc)
  show ?case
  proof (cases "i \<le> totalRuns")
    case True
    then have r: "runSingleMeasurement browser u i = Inr (f i)"
      using "1.prems" by simp
    have "run_loop browser u (i + 1) totalRuns (acc @ [f i]) = Inr ((acc @ [f i]) @ map f [i + 1..totalRuns])"
      using "1.IH" [OF True r] "1.prems" by simp
    moreover have "[i..totalRuns] = i # [i + 1..totalRuns]"
      using True by (simp add: upto_rec1)
    ultimately show ?thesis
      using True r by (subst run_loop.simps) simp
  next
    case False
    then show ?thesis by (subst run_loop.simps) simp
  qed
qed

lemma run_loop_none: "totalRuns < i \<Longrightarrow> run_loop browser u i totalRuns acc = Inr acc"
  by (subst run_loop.simps) simp

lemma runMeasurements_ok:
  assumes "launch browser = None" and "close browser = None"
    and "opt_applyOverrides options \<and> has_override \<longrightarrow> page browser = None"
    and "run_loop browser (opt_url options) 1 (opt_runs options) [] = Inr ms"
  shows "runMeasurements browser has_override options = Inr (summarise ms)"
  using assms by (auto simp: runMeasurements_def Let_def)

text \<open>
  C3. For every \<open>runs \<ge> 1\<close> and every sequence of per-run audit results (the browser
  starts and closes, every audit returns its report), \<open>runMeasurements\<close> returns, with
  exactly \<open>runs\<close> samples, the readings of the audits in order; for finite samples each
  of the six averaged fields is the arithmetic mean of that field over the runs, and
  \<open>minScore\<close> and \<open>maxScore\<close> are the least and the greatest raw score.
\<close>

theorem runMeasurements_samples_and_mean:
  assumes runs: "1 \<le> opt_runs options"
    and launched: "launch browser = None"
    and closed: "close browser = None"
    and paged: "opt_applyOverrides options \<and> has_override \<longrightarrow> page browser = None"
    and audits: "\<forall>j. 1 \<le> j \<and> j \<le> opt_runs options \<longrightarrow>
                   lighthouse browser (opt_url options) j = Inr (reports j)"
  shows "\<exists>out. runMeasurements browser has_override options = Inr out
     \<and> length (metrics out) = nat (opt_runs options)
     \<and> metrics out = map (\<lambda>j. extract_metrics (reports j)) [1..opt_runs options]
     \<and> (\<forall>qs. map score (metrics out) = map Fin qs \<longrightarrow>
           score (averages out) = Fin (mean qs)
           \<and> minScore out = Fin (Min (set qs)) \<and> maxScore out = Fin (Max (set qs)))
     \<and> (\<forall>qs. map fcp (metrics out) = map Fin qs \<longrightarrow> fcp (averages out) = Fin (mean qs))
     \<and> (\<forall>qs. map lcp (metrics out) = map Fin qs \<longrightarrow> lcp (averages out) = Fin (mean qs))
     \<and> (\<forall>qs. map tbt (metrics out) = map Fin qs \<longrightarrow> tbt (averages out) = Fin (mean qs))
     \<and> (\<forall>qs. map cls (metrics out) = map Fin qs \<longrightarrow> cls (averages out) = Fin (mean qs))
     \<and> (\<forall>qs. map si (metrics out) = map Fin qs \<longrightarrow> si (averages out) = Fin (mean qs))"
proof -
  define ms where "ms = map (\<lambda>j. extract_metrics (reports j)) [1..opt_runs options]"
  have single: "\<forall>j. 1 \<le> j \<and> j \<le> opt_runs options \<longrightarrow>
      runSingleMeasurement browser (opt_url options) j = Inr (extract_metrics (reports j))"
    using audits by (simp add: runSingleMeasurement_def)
  have loop: "run_loop browser (opt_url options) 1 (opt_runs options) [] = Inr ms"
    using run_loop_all [OF single, of "[]"] by (simp add: ms_def)
  have res: "runMeasurements browser has_override options = Inr (summarise ms)"
    using launched closed paged loop by (rule runMeasurements_ok)
  have len: "length ms = nat (opt_runs options)"
    using runs by (simp add: ms_def)
  have ne: "ms \<noteq> []"
    using len runs by auto
  have avg: "f (averages (summarise ms)) = Fin (mean qs)"
    if "map g ms = map Fin qs" and "f (averages (summarise ms)) = average (map g ms)"
    for f g qs
  proof -
    have "qs \<noteq> []" using that(1) ne by auto
    then show ?thesis using that by (simp add: average_mean)
  qed
  have spread: "minScore (summarise ms) = Fin (Min (set qs)) \<and> maxScore (summarise ms) = Fin (Max (set qs))"
    if "map score ms = map Fin qs" for qs
  proof -
    have "qs \<noteq> []" using that ne by auto
    then show ?thesis using that by (simp add: summarise_def Let_def math_min_Fin math_max_Fin)
  qed
  have m: "metrics (summarise ms) = ms"
    by (simp add: summarise_def Let_def)
  have "length (metrics (summarise ms)) = nat (opt_runs options)"
    using m len by simp
  moreover have "metrics (summarise ms) = map (\<lambda>j. extract_metrics (reports j)) [1..opt_runs options]"
    using m ms_def by simp
  moreover have "\<forall>qs. map score (metrics (summarise ms)) = map Fin qs \<longrightarrow>
           score (averages (summarise ms)) = Fin (mean qs)
           \<and> minScore (summarise ms) = Fin (Min (set qs)) \<and> maxScore (summarise ms) = Fin (Max (set qs))"
    using avg [of score _ score] spread by (simp add: m) (simp add: summarise_def Let_def)
  moreover have "\<forall>qs. map fcp (metrics (summarise ms)) = map Fin qs \<longrightarrow> fcp (averages (summarise ms)) = Fin (mean qs)"
    using avg [of fcp _ fcp] by (simp add: m) (simp add: summarise_def Let_def)
  moreover have "\<forall>qs. map lcp (metrics (summarise ms)) = map Fin qs \<longrightarrow> lcp (averages (summarise ms)) = Fin (mean qs)"
    using avg [of lcp _ lcp] by (simp add: m) (simp add: summarise_def Let_def)
  moreover have "\<forall>qs. map tbt (metrics (summarise ms)) = map Fin qs \<longrightarrow> tbt (averages (summarise ms)) = Fin (mean qs)"
    using avg [of tbt _ tbt] by (simp add: m) (simp add: summarise_def Let_def)
  moreover have "\<forall>qs. map cls (metrics (summarise ms)) = map Fin qs \<longrightarrow> cls (averages (summarise ms)) = Fin (mean qs)"
    using avg [of cls _ cls] by (simp add: m) (simp add: summarise_def Let_def)
  moreover have "\<forall>qs. map si (metrics (summarise ms)) = map Fin qs \<longrightarrow> si (averages (summarise ms)) = Fin (mean qs)"
    using avg [of si _ si] by (simp add: m) (simp add: summarise_def Let_def)
  ultimately show ?thesis using res by blast
qed

theorem runMeasurements_samples_and_mean_witness:
  "\<exists>out. runMeasurements chrome0 False (options0 2) = Inr out
     \<and> length (metrics out) = 2
     \<and> map score (metrics out) = [Fin 80, Fin 90]
     \<and> score (averages out) = Fin 85
     \<and> minScore out = Fin 80 \<and> maxScore out = Fin 90
     \<and> fcp (averages out) = Fin 1350"
proof -
  have runs: "1 \<le> opt_runs (options0 2)"
    by (simp add: options0_def)
  have launched: "launch chrome0 = None" and closed: "close chrome0 = None"
    by (simp_all add: chrome0_def)
  have paged: "opt_applyOverrides (options0 2) \<and> False \<longrightarrow> page chrome0 = None"
    by simp
  have audits: "\<forall>j. 1 \<le> j \<and> j \<le> opt_runs (options0 2) \<longrightarrow>
      lighthouse chrome0 (opt_url (options0 2)) j
      = Inr ((\<lambda>j. if j = 1 then report0 (4 / 5) 1500 else report0 (9 / 10) 1200) j)"
    by (simp add: chrome0_def)
  obtain out where res: "runMeasurements chrome0 False (options0 2) = Inr out"
    and len: "length (metrics out) = nat (opt_runs (options0 2))"
    and ms: "metrics out = map (\<lambda>j. extract_metrics (if j = 1 then report0 (4 / 5) 1500 else report0 (9 / 10) 1200))
                [1..opt_runs (options0 2)]"
    and sc: "\<forall>qs. map score (metrics out) = map Fin qs \<longrightarrow>
           score (averages out) = Fin (mean qs)
           \<and> minScore out = Fin (Min (set qs)) \<and> maxScore out = Fin (Max (set qs))"
    and fc: "\<forall>qs. map fcp (metrics out) = map Fin qs \<longrightarrow> fcp (averages out) = Fin (mean qs)"
    using runMeasurements_samples_and_mean [OF runs launched closed paged audits] by blast
  have range: "[1..opt_runs (options0 2)] = [1, 2]"
    by (simp add: options0_def upto_rec1)
  have scores: "map score (metrics out) = map Fin [80, 90]"
    by (simp add: ms range extract_metrics_def report0_def or_zero_def math_round_def floor_eq_iff)
  have fcps: "map fcp (metrics out) = map Fin [1500, 1200]"
    by (simp add: ms range extract_metrics_def report0_def or_zero_def)
  have a: "score (averages out) = Fin 85 \<and> minScore out = Fin 80 \<and> maxScore out = Fin 90"
    using sc [rule_format, OF scores] by (simp add: mean_def)
  have b: "fcp (averages out) = Fin 1350"
    using fc [rule_format, OF fcps] by (simp add: mean_def)
  have "length (metrics out) = 2"
    using len by (simp add: options0_def)
  then show ?thesis using res scores a b by simp
qed

text \<open>
  C4. Called with \<open>runs = 0\<close>, \<open>runMeasurements\<close> returns an empty sample list and
  every averaged field is 0. The 0 comes from the guard of \<open>average\<close> for the empty
  array; the division it guards, 0 by the length 0, would give NaN.
\<close>

theorem zero_runs_averages_are_zero:
  assumes runs: "opt_runs options = 0"
    and launched: "launch browser = None"
    and closed: "close browser = None"
    and paged: "opt_applyOverrides options \<and> has_override \<longrightarrow> page browser = None"
  shows "\<exists>out. runMeasurements browser has_override options = Inr out
     \<and> metrics out = []
     \<and> map score (metrics out) = []
     \<and> averages out =
         \<lparr>score = Fin 0, fcp = Fin 0, lcp = Fin 0, tbt = Fin 0, cls = Fin 0, si = Fin 0\<rparr>
     \<and> average [] = Fin 0
     \<and> js_div (foldl js_add (Fin 0) []) (Fin (of_nat (length ([] :: number list)))) = NaN"
proof -
  have loop: "run_loop browser (opt_url options) 1 (opt_runs options) [] = Inr []"
    using runs by (simp add: run_loop_none)
  have res: "runMeasurements browser has_override options = Inr (summarise [])"
    using launched closed paged loop by (rule runMeasurements_ok)
  have "summarise [] =
      \<lparr>metrics = [],
       averages = \<lparr>score = Fin 0, fcp = Fin 0, lcp = Fin 0, tbt = Fin 0, cls = Fin 0, si = Fin 0\<rparr>,
       minScore = PosInf, maxScore = NegInf\<rparr>"
    by (simp add: summarise_def average_def math_min_def math_max_def)
  then show ?thesis using res by (simp add: average_def)
qed

theorem zero_runs_averages_are_zero_witness:
  "\<exists>out. runMeasurements chrome0 False (options0 0) = Inr out
     \<and> metrics out = [] \<and> score (averages out) = Fin 0 \<and> tbt (averages out) = Fin 0"
proof -
  have runs: "opt_runs (options0 0) = 0"
    by (simp add: options0_def)
  have launched: "launch chrome0 = None" and closed: "close chrome0 = None"
    by (simp_all add: chrome0_def)
  have paged: "opt_applyOverrides (options0 0) \<and> False \<longrightarrow> page chrome0 = None"
    by simp
  obtain out where "runMeasurements chrome0 False (options0 0) = Inr out"
    and "metrics out = []"
    and "averages out =
         \<lparr>score = Fin 0, fcp = Fin 0, lcp = Fin 0, tbt = Fin 0, cls = Fin 0, si = Fin 0\<rparr>"
    using zero_runs_averages_are_zero [OF runs launched closed paged] by blast
  then show ?thesis by simp
qed

text \<open>
  C10. Called with \<open>runs = 0\<close>, \<open>runMeasurements\<close> returns \<open>minScore = +Infinity\<close>
  and \<open>maxScore = -Infinity\<close>, the values of \<open>Math.min\<close> and \<open>Math.max\<close> on no
  argument, while the averaged score of the same call is 0.
\<close>

theorem zero_runs_spread_is_infinite:
  assumes runs: "opt_runs options = 0"
    and launched: "launch browser = None"
    and closed: "close browser = None"
    and paged: "opt_applyOverrides options \<and> has_override \<longrightarrow> page browser = None"
  shows "\<exists>out. runMeasurements browser has_override options = Inr out
     \<and> minScore out = PosInf \<and> maxScore out = NegInf
     \<and> minScore out = math_min [] \<and> maxScore out = math_max []
     \<and> score (averages out) = Fin 0"
proof -
  have loop: "run_loop browser (opt_url options) 1 (opt_runs options) [] = Inr []"
    using runs by (simp add: run_loop_none)
  have res: "runMeasurements browser has_override options = Inr (summarise [])"
    using launched closed paged loop by (rule runMeasurements_ok)
  have "minScore (summarise []) = PosInf" and "maxScore (summarise []) = NegInf"
    and "score (averages (summarise [])) = Fin 0"
    by (simp_all add: summarise_def average_def math_min_def math_max_def)
  then show ?thesis using res by (simp add: math_min_def math_max_def)
qed

theorem zero_runs_spread_is_infinite_witness:
  "\<exists>out. runMeasurements chrome0 False (options0 0) = Inr out
     \<and> minScore out = PosInf \<and> maxScore out = NegInf \<and> score (averages out) = Fin 0"
proof -
  have runs: "opt_runs (options0 0) = 0"
    by (simp add: options0_def)
  have launched: "launch chrome0 = None" and closed: "close chrome0 = None"
    by (simp_all add: chrome0_def)
  have paged: "opt_applyOverrides (options0 0) \<and> False \<longrightarrow> page chrome0 = None"
    by simp
  show ?thesis
    using zero_runs_spread_is_infinite [OF runs launched closed paged] by blast
qed

section \<open>Properties of the result log\<close>

subsection \<open>Composing file-system calls\<close>

lemma writes_refl: "writes X line (\<lambda>_. 0) s s"
  by (simp add: writes_def)

lemma writes_trans:
  assumes "writes X line k s s'" and "writes X line k' s' s''"
  shows "writes X line (\<lambda>p. k p + k' p) s s''"
  using assms by (simp add: writes_def replicate_add)

lemma logged_zero:
  assumes "files s' = files s" and "denied s' = denied s"
  shows "logged X line (\<lambda>_. 0) r s s'"
proof -
  have "writes X line (\<lambda>_. 0) s s'"
    using assms by (simp add: writes_def content_def)
  then show ?thesis
    unfolding logged_def by (intro exI [of _ "\<lambda>_. 0"]) simp
qed

lemma logged_cong:
  assumes "logged X line K r s s'" and "\<And>p. K p = K' p"
  shows "logged X line K' r s s'"
proof -
  have "K = K'" using assms(2) by auto
  then show ?thesis using assms(1) by simp
qed

lemma logged_and_then:
  assumes run: "and_then m f s = (r, s'')"
    and first: "\<And>r1 s1. m s = (r1, s1) \<Longrightarrow> logged X line K1 r1 s s1"
    and second: "\<And>x s1 r2 s2. m s = (Inr x, s1) \<Longrightarrow> f x s1 = (r2, s2) \<Longrightarrow> logged X line K2 r2 s1 s2"
  shows "logged X line (\<lambda>p. K1 p + K2 p) r s s''"
proof -
  obtain r1 s1 where ms: "m s = (r1, s1)"
    by (cases "m s")
  obtain k1 where w1: "writes X line k1 s s1" and b1: "\<forall>p. k1 p \<le> K1 p"
    and e1: "\<not> isl r1 \<longrightarrow> (\<forall>p. k1 p = K1 p)"
    using first [OF ms] unfolding logged_def by blast
  show ?thesis
  proof (cases r1)
    case (Inl e)
    then have "r = Inl e" and "s'' = s1"
      using run ms by (simp_all add: and_then_def)
    then show ?thesis
      unfolding logged_def using w1 b1 by (intro exI [of _ k1]) (auto intro: le_trans)
  next
    case (Inr x)
    then have fx: "f x s1 = (r, s'')"
      using run ms by (simp add: and_then_def)
    obtain k2 where w2: "writes X line k2 s1 s''" and b2: "\<forall>p. k2 p \<le> K2 p"
      and e2: "\<not> isl r \<longrightarrow> (\<forall>p. k2 p = K2 p)"
      using second [OF _ fx] ms Inr unfolding logged_def by blast
    have k1: "\<forall>p. k1 p = K1 p"
      using e1 Inr by simp
    have "writes X line (\<lambda>p. k1 p + k2 p) s s''"
      using w1 w2 by (rule writes_trans)
    then show ?thesis
      unfolding logged_def using k1 b2 e2 by (intro exI [of _ "\<lambda>p. k1 p + k2 p"]) auto
  qed
qed

lemma logged_return: "io_return x s = (r, s') \<Longrightarrow> logged X line (\<lambda>_. 0) r s s'"
  by (rule logged_zero) (auto simp: io_return_def)

lemma logged_mkdirSync: "mkdirSync d s = (r, s') \<Longrightarrow> logged X line (\<lambda>_. 0) r s s'"
  by (rule logged_zero) (auto simp: mkdirSync_def split: option.splits)

lemma logged_ensure_dir: "ensure_dir d s = (r, s') \<Longrightarrow> logged X line (\<lambda>_. 0) r s s'"
  by (rule logged_zero) (auto simp: ensure_dir_def mkdirSync_def split: option.splits if_splits)

lemma logged_writeFileSync:
  assumes "writeFileSync q text s = (r, s')" and "q \<in> X"
  shows "logged X line (\<lambda>_. 0) r s s'"
proof -
  have "writes X line (\<lambda>_. 0) s s'"
  proof (cases "denied s q")
    case None
    then have s': "s' = s\<lparr>files := (files s)(q \<mapsto> text)\<rparr>"
      using assms(1) by (simp add: writeFileSync_def)
    have "files s' p = files s p" if "p \<notin> X" for p
      using that assms(2) s' by auto
    then show ?thesis
      using s' by (simp add: writes_def content_def)
  next
    case (Some e)
    then have "s' = s"
      using assms(1) by (simp add: writeFileSync_def)
    then show ?thesis by (simp add: writes_def)
  qed
  then show ?thesis
    unfolding logged_def by (intro exI [of _ "\<lambda>_. 0"]) simp
qed

lemma logged_appendFileSync:
  assumes "appendFileSync q line s = (r, s')"
  shows "logged X line (\<lambda>p. if p = q then 1 else 0) r s s'"
proof (cases "denied s q")
  case None
  then have "writes X line (\<lambda>p. if p = q then 1 else 0) s s'"
    using assms by (auto simp: appendFileSync_def writes_def content_def split: option.splits)
  then show ?thesis
    unfolding logged_def by (intro exI [of _ "\<lambda>p. if p = q then 1 else 0"]) simp
next
  case (Some e)
  then have "s' = s" and "isl r"
    using assms by (auto simp: appendFileSync_def)
  then show ?thesis
    unfolding logged_def using writes_refl [of X line s]
    by (intro exI [of _ "\<lambda>_. 0"]) simp
qed

lemma getLogPathForTag_value:
  "getLogPathForTag h tag s = (Inr x, s') \<Longrightarrow> x = tag_log_path h tag"
  by (auto simp: getLogPathForTag_def and_then_def io_return_def split: prod.splits sum.splits)

lemma getLogPathForScenario_value:
  "getLogPathForScenario h sid s = (Inr x, s') \<Longrightarrow> x = scenario_log_path h sid"
  by (auto simp: getLogPathForScenario_def and_then_def io_return_def split: prod.splits sum.splits)

lemma logged_getLogPathForTag:
  assumes "getLogPathForTag h tag s = (r, s')"
  shows "logged X line (\<lambda>_. 0) r s s'"
proof -
  have "logged X line (\<lambda>p. 0 + 0) r s s'"
    using assms unfolding getLogPathForTag_def
    by (rule logged_and_then) (erule logged_ensure_dir, erule logged_return)
  then show ?thesis by simp
qed

lemma logged_getLogPathForScenario:
  assumes "getLogPathForScenario h sid s = (r, s')"
  shows "logged X line (\<lambda>_. 0) r s s'"
proof -
  have "logged X line (\<lambda>p. 0 + 0) r s s'"
    using assms unfolding getLogPathForScenario_def
    by (rule logged_and_then) (erule logged_ensure_dir, erule logged_return)
  then show ?thesis by simp
qed

lemma logged_append_tags:
  "append_tags h ts line s = (r, s') \<Longrightarrow> logged X line (tag_lines h ts) r s s'"
proof (induction ts arbitrary: s r s')
  case Nil
  then have "logged X line (\<lambda>_. 0) r s s'"
    by (simp add: logged_return)
  then show ?case
    by (rule logged_cong) (simp add: tag_lines_def)
next
  case (Cons tag rest)
  have step: "logged X line (\<lambda>p. (if p = tag_log_path h tag then 1 else 0) + tag_lines h rest p) r2 s1 s2"
    if "and_then (appendFileSync (tag_log_path h tag) line) (\<lambda>_. append_tags h rest line) s1 = (r2, s2)"
    for s1 r2 s2
    using that
    by (rule logged_and_then) (erule logged_appendFileSync, erule Cons.IH)
  have "logged X line
          (\<lambda>p. 0 + ((if p = tag_log_path h tag then 1 else 0) + tag_lines h rest p)) r s s'"
  proof (rule logged_and_then [where m = "getLogPathForTag h tag"
        and f = "\<lambda>tagLogPath. and_then (appendFileSync tagLogPath line) (\<lambda>_. append_tags h rest line)"])
    show "and_then (getLogPathForTag h tag)
            (\<lambda>tagLogPath. and_then (appendFileSync tagLogPath line) (\<lambda>_. append_tags h rest line)) s
          = (r, s')"
      using Cons.prems by simp
  next
    fix r1 s1
    assume "getLogPathForTag h tag s = (r1, s1)"
    then show "logged X line (\<lambda>_. 0) r1 s s1"
      by (rule logged_getLogPathForTag)
  next
    fix x s1 r2 s2
    assume g: "getLogPathForTag h tag s = (Inr x, s1)"
      and a: "and_then (appendFileSync x line) (\<lambda>_. append_tags h rest line) s1 = (r2, s2)"
    have "x = tag_log_path h tag"
      using g by (rule getLogPathForTag_value)
    then show "logged X line (\<lambda>p. (if p = tag_log_path h tag then 1 else 0) + tag_lines h rest p) r2 s1 s2"
      using a step by simp
  qed
  then show ?case
    by (rule logged_cong) (auto simp: tag_lines_def)
qed


lemma logged_appendToJsonlLog:
  assumes run: "appendToJsonlLog h summary tags sid s = (r, s')"
  shows "logged X (json_line h summary tags sid) (appended_lines h tags sid) r s s'"
proof -
  define line where "line = json_line h summary tags sid"
  define scenario_part :: "unit io" where
    "scenario_part =
       (case truthy sid of
          Some sid' \<Rightarrow>
            and_then (getLogPathForScenario h sid') (\<lambda>scenarioLogPath.
              appendFileSync scenarioLogPath line)
        | None \<Rightarrow> io_return ())"
  define tags_part :: "unit io" where
    "tags_part =
       (if length (some_tags tags) > 0 then append_tags h (some_tags tags) line else io_return ())"
  have p4: "logged X line (scenario_lines h sid) r2 s1 s2" if "scenario_part s1 = (r2, s2)" for r2 s1 s2
  proof (cases "truthy sid")
    case None
    then have "logged X line (\<lambda>_. 0) r2 s1 s2"
      using that by (simp add: scenario_part_def logged_return)
    then show ?thesis
      by (rule logged_cong) (simp add: scenario_lines_def None)
  next
    case (Some sid')
    have "logged X line (\<lambda>p. 0 + (if p = scenario_log_path h sid' then 1 else 0)) r2 s1 s2"
    proof (rule logged_and_then [where m = "getLogPathForScenario h sid'"
          and f = "\<lambda>scenarioLogPath. appendFileSync scenarioLogPath line"])
      show "and_then (getLogPathForScenario h sid') (\<lambda>scenarioLogPath. appendFileSync scenarioLogPath line) s1
            = (r2, s2)"
        using that Some by (simp add: scenario_part_def)
    next
      fix r1 t1
      assume "getLogPathForScenario h sid' s1 = (r1, t1)"
      then show "logged X line (\<lambda>_. 0) r1 s1 t1"
        by (rule logged_getLogPathForScenario)
    next
      fix x t1 r3 t2
      assume g: "getLogPathForScenario h sid' s1 = (Inr x, t1)" and a: "appendFileSync x line t1 = (r3, t2)"
      have "x = scenario_log_path h sid'"
        using g by (rule getLogPathForScenario_value)
      then show "logged X line (\<lambda>p. if p = scenario_log_path h sid' then 1 else 0) r3 t1 t2"
        using a logged_appendFileSync by simp
    qed
    then show ?thesis
      by (rule logged_cong) (simp add: scenario_lines_def Some)
  qed
  have p3: "logged X line (tag_lines h (some_tags tags)) r2 s1 s2" if "tags_part s1 = (r2, s2)" for r2 s1 s2
  proof (cases "length (some_tags tags) > 0")
    case True
    then show ?thesis
      using that by (simp add: tags_part_def logged_append_tags)
  next
    case False
    then have "logged X line (\<lambda>_. 0) r2 s1 s2"
      using that by (simp add: tags_part_def logged_return)
    then show ?thesis
      by (rule logged_cong) (use False in \<open>simp add: tag_lines_def\<close>)
  qed
  have p34: "logged X line (\<lambda>p. tag_lines h (some_tags tags) p + scenario_lines h sid p) r2 s1 s2"
    if "and_then tags_part (\<lambda>_. scenario_part) s1 = (r2, s2)" for r2 s1 s2
    using that by (rule logged_and_then) (erule p3, erule p4)
  have p234: "logged X line
      (\<lambda>p. (if p = jsonlLogPath h then 1 else 0)
            + (tag_lines h (some_tags tags) p + scenario_lines h sid p)) r2 s1 s2"
    if "and_then (appendFileSync (jsonlLogPath h) line) (\<lambda>_. and_then tags_part (\<lambda>_. scenario_part)) s1
        = (r2, s2)" for r2 s1 s2
    using that by (rule logged_and_then) (erule logged_appendFileSync, erule p34)
  have whole: "appendToJsonlLog h summary tags sid =
      and_then (ensure_dir (dirname (jsonlLogPath h))) (\<lambda>_.
        and_then (appendFileSync (jsonlLogPath h) line) (\<lambda>_. and_then tags_part (\<lambda>_. scenario_part)))"
    unfolding appendToJsonlLog_def Let_def line_def tags_part_def scenario_part_def
    by (rule refl)
  have "logged X line
      (\<lambda>p. 0 + ((if p = jsonlLogPath h then 1 else 0)
            + (tag_lines h (some_tags tags) p + scenario_lines h sid p))) r s s'"
    using run unfolding whole
    by (rule logged_and_then) (erule logged_ensure_dir, erule p234)
  then show ?thesis
    unfolding line_def by (rule logged_cong) (simp add: appended_lines_def)
qed

lemma ensureResultsDir_value: "ensureResultsDir h s = (Inr x, s') \<Longrightarrow> x = resultsPath h"
  by (auto simp: ensureResultsDir_def and_then_def io_return_def split: prod.splits sum.splits)

lemma logged_ensureResultsDir:
  assumes "ensureResultsDir h s = (r, s')"
  shows "logged X line (\<lambda>_. 0) r s s'"
proof -
  have "logged X line (\<lambda>p. 0 + 0) r s s'"
    using assms unfolding ensureResultsDir_def
    by (rule logged_and_then) (erule logged_ensure_dir, erule logged_return)
  then show ?thesis by simp
qed

lemma logged_saveResults:
  assumes run: "saveResults h options s = (r, s')"
    and x: "summary_path h options \<in> X"
  shows "logged X (saved_line h options)
           (appended_lines h (save_tags options) (save_scenarioId options)) r s s'"
proof -
  define line where "line = saved_line h options"
  define K where "K = appended_lines h (save_tags options) (save_scenarioId options)"
  define summary where "summary = summary_of options (generateTimestamp h)"
  define sessionDir where
    "sessionDir = path_join (resultsPath h) (session_dir_name options (generateTimestamp h))"
  define log_part :: "string io" where
    "log_part = and_then (appendToJsonlLog h summary (save_tags options) (save_scenarioId options))
                  (\<lambda>_. io_return sessionDir)"
  define write_part :: "string io" where
    "write_part = and_then (writeFileSync (path_join sessionDir ''summary.json'')
                    (stringify_summary h summary)) (\<lambda>_. log_part)"
  define session_part :: "string io" where
    "session_part = and_then (mkdirSync sessionDir) (\<lambda>_. write_part)"
  have sp: "path_join sessionDir ''summary.json'' \<in> X"
    using x by (simp add: summary_path_def sessionDir_def)
  have l: "line = json_line h summary (save_tags options) (save_scenarioId options)"
    by (simp add: line_def saved_line_def summary_def)
  have p4: "logged X line (\<lambda>p. K p + 0) r2 s1 s2" if "log_part s1 = (r2, s2)" for r2 s1 s2
    using that unfolding log_part_def
  proof (rule logged_and_then)
    fix r1 t1
    assume "appendToJsonlLog h summary (save_tags options) (save_scenarioId options) s1 = (r1, t1)"
    then show "logged X line K r1 s1 t1"
      unfolding l K_def by (rule logged_appendToJsonlLog)
  next
    fix x t1 r3 t2
    assume "io_return sessionDir t1 = (r3, t2)"
    then show "logged X line (\<lambda>_. 0) r3 t1 t2"
      by (rule logged_return)
  qed
  have p3: "logged X line (\<lambda>p. 0 + (K p + 0)) r2 s1 s2" if "write_part s1 = (r2, s2)" for r2 s1 s2
    using that unfolding write_part_def
  proof (rule logged_and_then)
    fix r1 t1
    assume "writeFileSync (path_join sessionDir ''summary.json'') (stringify_summary h summary) s1 = (r1, t1)"
    then show "logged X line (\<lambda>_. 0) r1 s1 t1"
      using sp by (rule logged_writeFileSync)
  next
    fix x t1 r3 t2
    assume "log_part t1 = (r3, t2)"
    then show "logged X line (\<lambda>p. K p + 0) r3 t1 t2"
      by (rule p4)
  qed
  have p2: "logged X line (\<lambda>p. 0 + (0 + (K p + 0))) r2 s1 s2" if "session_part s1 = (r2, s2)" for r2 s1 s2
    using that unfolding session_part_def
    by (rule logged_and_then) (erule logged_mkdirSync, erule p3)
  have "logged X line (\<lambda>p. 0 + (0 + (0 + (K p + 0)))) r s s'"
  proof (rule logged_and_then [where m = "ensureResultsDir h" and f = "\<lambda>resultsDir.
       (let timestamp = generateTimestamp h;
            sessionDir = path_join resultsDir (session_dir_name options timestamp);
            summary = summary_of options timestamp;
            summaryPath = path_join sessionDir ''summary.json''
        in and_then (mkdirSync sessionDir) (\<lambda>_.
           and_then (writeFileSync summaryPath (stringify_summary h summary)) (\<lambda>_.
           and_then (appendToJsonlLog h summary (save_tags options) (save_scenarioId options)) (\<lambda>_.
           io_return sessionDir))))"])
    show "and_then (ensureResultsDir h) (\<lambda>resultsDir.
       (let timestamp = generateTimestamp h;
            sessionDir = path_join resultsDir (session_dir_name options timestamp);
            summary = summary_of options timestamp;
            summaryPath = path_join sessionDir ''summary.json''
        in and_then (mkdirSync sessionDir) (\<lambda>_.
           and_then (writeFileSync summaryPath (stringify_summary h summary)) (\<lambda>_.
           and_then (appendToJsonlLog h summary (save_tags options) (save_scenarioId options)) (\<lambda>_.
           io_return sessionDir))))) s = (r, s')"
      using run by (simp add: saveResults_def)
  next
    fix r1 t1
    assume "ensureResultsDir h s = (r1, t1)"
    then show "logged X line (\<lambda>_. 0) r1 s t1"
      by (rule logged_ensureResultsDir)
  next
    fix x t1 r3 t2
    assume g: "ensureResultsDir h s = (Inr x, t1)"
      and a: "(let timestamp = generateTimestamp h;
            sessionDir = path_join x (session_dir_name options timestamp);
            summary = summary_of options timestamp;
            summaryPath = path_join sessionDir ''summary.json''
        in and_then (mkdirSync sessionDir) (\<lambda>_.
           and_then (writeFileSync summaryPath (stringify_summary h summary)) (\<lambda>_.
           and_then (appendToJsonlLog h summary (save_tags options) (save_scenarioId options)) (\<lambda>_.
           io_return sessionDir)))) t1 = (r3, t2)"
    have "x = resultsPath h"
      using g by (rule ensureResultsDir_value)
    then have "session_part t1 = (r3, t2)"
      using a by (simp add: Let_def session_part_def write_part_def log_part_def sessionDir_def summary_def)
    then show "logged X line (\<lambda>p. 0 + (0 + (K p + 0))) r3 t1 t2"
      by (rule p2)
  qed
  then show ?thesis
    unfolding line_def K_def by (rule logged_cong) simp
qed

subsection \<open>A save on a file system that refuses nothing\<close>

lemma never_fails_return: "never_fails (io_return x)"
  by (simp add: never_fails_def io_return_def)

lemma never_fails_and_then:
  assumes "never_fails m" and "\<And>x. never_fails (f x)"
  shows "never_fails (and_then m f)"
  unfolding never_fails_def
proof (intro allI impI)
  fix s :: fs
  assume d: "\<forall>p. denied s p = None"
  obtain x s1 where m: "m s = (Inr x, s1)" and d1: "\<forall>p. denied s1 p = None"
    using assms(1) d unfolding never_fails_def by blast
  obtain y s2 where f: "f x s1 = (Inr y, s2)" and d2: "\<forall>p. denied s2 p = None"
    using assms(2) [of x] d1 unfolding never_fails_def by blast
  have "and_then m f s = (Inr y, s2)"
    using m f by (simp add: and_then_def)
  then show "\<exists>x s'. and_then m f s = (Inr x, s') \<and> (\<forall>p. denied s' p = None)"
    using d2 by blast
qed

lemma never_fails_mkdirSync: "never_fails (mkdirSync d)"
  by (simp add: never_fails_def mkdirSync_def)

lemma never_fails_ensure_dir: "never_fails (ensure_dir d)"
  by (simp add: never_fails_def ensure_dir_def mkdirSync_def)

lemma never_fails_writeFileSync: "never_fails (writeFileSync p text)"
  by (simp add: never_fails_def writeFileSync_def)

lemma never_fails_appendFileSync: "never_fails (appendFileSync p text)"
  by (simp add: never_fails_def appendFileSync_def)

lemma never_fails_append_tags: "never_fails (append_tags h ts line)"
  by (induction ts)
    (simp_all add: never_fails_return never_fails_and_then getLogPathForTag_def
      never_fails_ensure_dir never_fails_appendFileSync)

lemma never_fails_appendToJsonlLog: "never_fails (appendToJsonlLog h summary tags sid)"
  unfolding appendToJsonlLog_def Let_def
  by (intro never_fails_and_then never_fails_ensure_dir never_fails_appendFileSync)
    (auto simp: never_fails_return never_fails_append_tags getLogPathForScenario_def
      intro!: never_fails_and_then never_fails_ensure_dir never_fails_appendFileSync
      split: option.splits)

lemma never_fails_saveResults: "never_fails (saveResults h options)"
  unfolding saveResults_def Let_def ensureResultsDir_def
  by (intro never_fails_and_then never_fails_ensure_dir never_fails_return never_fails_mkdirSync
      never_fails_writeFileSync never_fails_appendToJsonlLog)

lemma saveResults_returns:
  assumes "\<forall>p. denied s p = None"
  shows "\<not> isl (fst (saveResults h options s))"
proof -
  obtain x s' where "saveResults h options s = (Inr x, s')"
    using never_fails_saveResults [of h options] assms unfolding never_fails_def by blast
  then show ?thesis by simp
qed

lemma saveResults_content:
  assumes "\<forall>q. denied s q = None" and "p \<noteq> summary_path h options"
  shows "content (snd (saveResults h options s)) p =
         content s p @ concat (replicate (appended_lines h (save_tags options) (save_scenarioId options) p)
                                 (saved_line h options))"
proof -
  obtain r s' where run: "saveResults h options s = (r, s')"
    by (cases "saveResults h options s")
  have ok: "\<not> isl r"
    using saveResults_returns [OF assms(1), of h options] run by simp
  have "logged {summary_path h options} (saved_line h options)
          (appended_lines h (save_tags options) (save_scenarioId options)) r s s'"
    using run by (rule logged_saveResults) simp
  then show ?thesis
    using ok assms(2) run by (auto simp: logged_def writes_def)
qed

text \<open>
  C6, as amended. A save appends one and the same JSON line: once to the global log, once
  for every listed tag to the log file of that tag (tags with the same file name share a
  file, which then gets a line for each of them), and once to the log of the scenario
  when a scenario id is given; so with no tags and no scenario id only the global log
  grows. Apart from the session's own \<open>summary.json\<close> no file ever loses or changes text
  it held: whatever the outcome of the save, the old text stays in front and at most
  those lines follow, and all of them do when the save returns. It returns whenever no
  write is refused.
\<close>

theorem saveResults_fan_out:
  assumes run: "saveResults h options s = (r, s')"
    and p: "p \<noteq> summary_path h options"
  shows "(\<exists>k \<le> appended_lines h (save_tags options) (save_scenarioId options) p.
            content s' p = content s p @ concat (replicate k (saved_line h options)))
     \<and> (\<not> isl r \<longrightarrow>
          content s' p =
            content s p @ concat (replicate (appended_lines h (save_tags options) (save_scenarioId options) p)
                                    (saved_line h options)))
     \<and> appended_lines h (save_tags options) (save_scenarioId options) p =
          (if p = jsonlLogPath h then 1 else 0)
          + length (filter (\<lambda>t. tag_log_path h t = p) (some_tags (save_tags options)))
          + (case truthy (save_scenarioId options) of
               Some sid \<Rightarrow> (if p = scenario_log_path h sid then 1 else 0)
             | None \<Rightarrow> 0)
     \<and> (save_tags options = None \<and> save_scenarioId options = None \<and> p \<noteq> jsonlLogPath h
          \<longrightarrow> content s' p = content s p)
     \<and> ((\<forall>q. denied s q = None) \<longrightarrow> \<not> isl r)"
proof -
  have "logged {summary_path h options} (saved_line h options)
          (appended_lines h (save_tags options) (save_scenarioId options)) r s s'"
    using run by (rule logged_saveResults) simp
  then obtain k where w: "writes {summary_path h options} (saved_line h options) k s s'"
    and b: "\<forall>q. k q \<le> appended_lines h (save_tags options) (save_scenarioId options) q"
    and e: "\<not> isl r \<longrightarrow> (\<forall>q. k q = appended_lines h (save_tags options) (save_scenarioId options) q)"
    unfolding logged_def by blast
  have c: "content s' p = content s p @ concat (replicate (k p) (saved_line h options))"
    using w p by (simp add: writes_def)
  have one: "\<exists>k \<le> appended_lines h (save_tags options) (save_scenarioId options) p.
            content s' p = content s p @ concat (replicate k (saved_line h options))"
    using c b by blast
  have two: "\<not> isl r \<longrightarrow>
          content s' p =
            content s p @ concat (replicate (appended_lines h (save_tags options) (save_scenarioId options) p)
                                    (saved_line h options))"
    using c e by simp
  have three: "appended_lines h (save_tags options) (save_scenarioId options) p =
          (if p = jsonlLogPath h then 1 else 0)
          + length (filter (\<lambda>t. tag_log_path h t = p) (some_tags (save_tags options)))
          + (case truthy (save_scenarioId options) of
               Some sid \<Rightarrow> (if p = scenario_log_path h sid then 1 else 0)
             | None \<Rightarrow> 0)"
    by (simp add: appended_lines_def tag_lines_def scenario_lines_def)
  have four: "save_tags options = None \<and> save_scenarioId options = None \<and> p \<noteq> jsonlLogPath h
          \<longrightarrow> content s' p = content s p"
  proof
    assume a: "save_tags options = None \<and> save_scenarioId options = None \<and> p \<noteq> jsonlLogPath h"
    then have "appended_lines h (save_tags options) (save_scenarioId options) p = 0"
      by (simp add: appended_lines_def tag_lines_def scenario_lines_def some_tags_def truthy_def)
    then have "k p = 0" using b by (metis le_zero_eq)
    then show "content s' p = content s p" using c by simp
  qed
  have five: "(\<forall>q. denied s q = None) \<longrightarrow> \<not> isl r"
    using saveResults_returns [of s h options] run by simp
  show ?thesis
    using one two three four five by blast
qed

theorem saveResults_fan_out_witness:
  "content (snd (saveResults host0 (save0 (Some [''prod'', ''Checkout'']) (Some ''home'')) fs0))
     ''/w/results/measurements.jsonl''
     = ''earlier line'' @ saved_line host0 (save0 (Some [''prod'', ''Checkout'']) (Some ''home''))
   \<and> content (snd (saveResults host0 (save0 (Some [''prod'', ''Checkout'']) (Some ''home'')) fs0))
     ''/w/results/tags/checkout.jsonl''
     = saved_line host0 (save0 (Some [''prod'', ''Checkout'']) (Some ''home''))
   \<and> content (snd (saveResults host0 (save0 (Some [''prod'', ''Checkout'']) (Some ''home'')) fs0))
     ''/w/results/tags/other.jsonl'' = []"
proof -
  define options where "options = save0 (Some [''prod'', ''Checkout'']) (Some ''home'')"
  obtain r s' where run: "saveResults host0 options fs0 = (r, s')"
    by (cases "saveResults host0 options fs0")
  have free: "\<forall>q. denied fs0 q = None"
    by (simp add: fs0_def)
  have sp: "summary_path host0 options = ''/w/results/prod-Checkout--home--2024-01-15T11-00-00/summary.json''"
    by (simp add: summary_path_def session_dir_name_def options_def save0_def some_tags_def truthy_def
        generateTimestamp_def host0_def path_join_def)
  have paths: "tag_log_path host0 ''prod'' = ''/w/results/tags/prod.jsonl''"
    "tag_log_path host0 ''Checkout'' = ''/w/results/tags/checkout.jsonl''"
    "scenario_log_path host0 ''home'' = ''/w/results/scenarios/home.jsonl''"
    "jsonlLogPath host0 = ''/w/results/measurements.jsonl''"
    by (simp_all add: tag_log_path_def scenario_log_path_def path_join_def safe_name_def
        is_word_char_def to_lower_def host0_def)
  have opts: "some_tags (save_tags options) = [''prod'', ''Checkout'']"
    "truthy (save_scenarioId options) = Some ''home''"
    by (simp_all add: options_def save0_def some_tags_def truthy_def)
  have a: "content s' ''/w/results/measurements.jsonl'' = ''earlier line'' @ saved_line host0 options"
    using saveResults_fan_out [OF run, of "''/w/results/measurements.jsonl''"] free
    by (simp add: sp paths opts) (simp add: content_def fs0_def)
  have b: "content s' ''/w/results/tags/checkout.jsonl'' = saved_line host0 options"
    using saveResults_fan_out [OF run, of "''/w/results/tags/checkout.jsonl''"] free
    by (simp add: sp paths opts) (simp add: content_def fs0_def)
  have c: "content s' ''/w/results/tags/other.jsonl'' = []"
    using saveResults_fan_out [OF run, of "''/w/results/tags/other.jsonl''"] free
    by (simp add: sp paths opts) (simp add: content_def fs0_def)
  show ?thesis
    using a b c run unfolding options_def by simp
qed

text \<open>
  C6 as it is worded fails twice. A save without tags but with a scenario id also
  appends to the log of the scenario, which is not the global log; and two listed tags
  with one file name, \<open>A\<close> and \<open>a\<close>, put two lines into that tag log, not exactly one.
\<close>

theorem saveResults_fan_out_counterexample:
  "save_tags (save0 None (Some ''home'')) = None
   \<and> ''/w/results/scenarios/home.jsonl'' \<noteq> jsonlLogPath host0
   \<and> content fs0 ''/w/results/scenarios/home.jsonl'' = []
   \<and> content (snd (saveResults host0 (save0 None (Some ''home'')) fs0))
        ''/w/results/scenarios/home.jsonl''
      = saved_line host0 (save0 None (Some ''home''))
   \<and> saved_line host0 (save0 None (Some ''home'')) \<noteq> []
   \<and> tag_log_path host0 ''A'' = ''/w/results/tags/a.jsonl''
   \<and> content fs0 ''/w/results/tags/a.jsonl'' = []
   \<and> content (snd (saveResults host0 (save0 (Some [''A'', ''a'']) None) fs0))
        ''/w/results/tags/a.jsonl''
      = saved_line host0 (save0 (Some [''A'', ''a'']) None)
        @ saved_line host0 (save0 (Some [''A'', ''a'']) None)"
proof -
  have free: "\<forall>q. denied fs0 q = None"
    by (simp add: fs0_def)
  have paths: "tag_log_path host0 ''A'' = ''/w/results/tags/a.jsonl''"
    "tag_log_path host0 ''a'' = ''/w/results/tags/a.jsonl''"
    "scenario_log_path host0 ''home'' = ''/w/results/scenarios/home.jsonl''"
    "jsonlLogPath host0 = ''/w/results/measurements.jsonl''"
    by (simp_all add: tag_log_path_def scenario_log_path_def path_join_def safe_name_def
        is_word_char_def to_lower_def host0_def)
  have sp1: "summary_path host0 (save0 None (Some ''home'')) = ''/w/results/2024-01-15T11-00-00/summary.json''"
    by (simp add: summary_path_def session_dir_name_def save0_def some_tags_def truthy_def
        generateTimestamp_def host0_def path_join_def)
  have sp2: "summary_path host0 (save0 (Some [''A'', ''a'']) None)
             = ''/w/results/A-a--adhoc--2024-01-15T11-00-00/summary.json''"
    by (simp add: summary_path_def session_dir_name_def save0_def some_tags_def truthy_def
        generateTimestamp_def host0_def path_join_def)
  have n1: "appended_lines host0 (save_tags (save0 None (Some ''home'')))
              (save_scenarioId (save0 None (Some ''home''))) ''/w/results/scenarios/home.jsonl'' = 1"
    by (simp add: appended_lines_def tag_lines_def scenario_lines_def paths save0_def some_tags_def
        truthy_def)
  have n2: "appended_lines host0 (save_tags (save0 (Some [''A'', ''a'']) None))
              (save_scenarioId (save0 (Some [''A'', ''a'']) None)) ''/w/results/tags/a.jsonl'' = 2"
    by (simp add: appended_lines_def tag_lines_def scenario_lines_def paths save0_def some_tags_def
        truthy_def)
  have e: "content fs0 ''/w/results/scenarios/home.jsonl'' = []"
    "content fs0 ''/w/results/tags/a.jsonl'' = []"
    by (simp_all add: content_def fs0_def)
  have a: "content (snd (saveResults host0 (save0 None (Some ''home'')) fs0))
        ''/w/results/scenarios/home.jsonl'' = saved_line host0 (save0 None (Some ''home''))"
    using saveResults_content [OF free, of "''/w/results/scenarios/home.jsonl''" host0 "save0 None (Some ''home'')"]
    by (simp add: sp1 n1 e)
  have b: "content (snd (saveResults host0 (save0 (Some [''A'', ''a'']) None) fs0))
        ''/w/results/tags/a.jsonl''
      = saved_line host0 (save0 (Some [''A'', ''a'']) None)
        @ saved_line host0 (save0 (Some [''A'', ''a'']) None)"
    using saveResults_content [OF free, of "''/w/results/tags/a.jsonl''" host0 "save0 (Some [''A'', ''a'']) None"]
    by (simp add: sp2 n2 e numeral_2_eq_2)
  have l: "saved_line host0 (save0 None (Some ''home'')) \<noteq> []"
    by (simp add: saved_line_def json_line_def)
  show ?thesis
    using a b l e paths by (simp add: save0_def)
qed

subsection \<open>Comparison\<close>

text \<open>
  C5. For every pair of summaries that load, \<open>compareResults\<close> produces for each of the
  six metrics \<open>diff = after - before\<close> and \<open>percentChange = diff / before * 100\<close>, and
  sets \<open>improved\<close> by the polarity of the metric: for the score exactly when the later
  value is greater, for FCP, LCP, TBT, CLS and the speed index exactly when it is less.
  On finite values with a non-zero earlier value these are the rational difference and
  ratio and the order of the rationals.
\<close>

theorem compareResults_polarity:
  assumes "loadSummary h s path1 = Some summary1"
    and "loadSummary h s path2 = Some summary2"
  shows "compareResults h s path1 path2 =
     Inr [spec_comparison HigherIsBetter ''Performance Score''
            (score (sum_averages summary1)) (score (sum_averages summary2)),
          spec_comparison LowerIsBetter ''FCP (ms)''
            (fcp (sum_averages summary1)) (fcp (sum_averages summary2)),
          spec_comparison LowerIsBetter ''LCP (ms)''
            (lcp (sum_averages summary1)) (lcp (sum_averages summary2)),
          spec_comparison LowerIsBetter ''TBT (ms)''
            (tbt (sum_averages summary1)) (tbt (sum_averages summary2)),
          spec_comparison LowerIsBetter ''CLS''
            (cls (sum_averages summary1)) (cls (sum_averages summary2)),
          spec_comparison LowerIsBetter ''Speed Index (ms)''
            (si (sum_averages summary1)) (si (sum_averages summary2))]
   \<and> (\<forall>pol m b a. b \<noteq> 0 \<longrightarrow>
         spec_comparison pol m (Fin b) (Fin a) =
           \<lparr>metric = m, before = Fin b, after = Fin a,
            diff = Fin (a - b),
            percentChange = Fin ((a - b) / b * 100),
            improved = (case pol of HigherIsBetter \<Rightarrow> b < a | LowerIsBetter \<Rightarrow> a < b)\<rparr>)"
proof
  show "compareResults h s path1 path2 =
     Inr [spec_comparison HigherIsBetter ''Performance Score''
            (score (sum_averages summary1)) (score (sum_averages summary2)),
          spec_comparison LowerIsBetter ''FCP (ms)''
            (fcp (sum_averages summary1)) (fcp (sum_averages summary2)),
          spec_comparison LowerIsBetter ''LCP (ms)''
            (lcp (sum_averages summary1)) (lcp (sum_averages summary2)),
          spec_comparison LowerIsBetter ''TBT (ms)''
            (tbt (sum_averages summary1)) (tbt (sum_averages summary2)),
          spec_comparison LowerIsBetter ''CLS''
            (cls (sum_averages summary1)) (cls (sum_averages summary2)),
          spec_comparison LowerIsBetter ''Speed Index (ms)''
            (si (sum_averages summary1)) (si (sum_averages summary2))]"
    using assms by (simp add: compareResults_def spec_comparison_def Let_def)
  show "\<forall>pol m b a. b \<noteq> 0 \<longrightarrow>
         spec_comparison pol m (Fin b) (Fin a) =
           \<lparr>metric = m, before = Fin b, after = Fin a,
            diff = Fin (a - b),
            percentChange = Fin ((a - b) / b * 100),
            improved = (case pol of HigherIsBetter \<Rightarrow> b < a | LowerIsBetter \<Rightarrow> a < b)\<rparr>"
    by (simp add: spec_comparison_def js_sub_def js_gt_def split: polarity.splits)
qed

theorem compareResults_polarity_witness:
  "\<exists>cs. compareResults host0 fs0 ''2024-01-15T10-30-00'' ''2024-01-15T11-00-00'' = Inr cs
     \<and> map diff cs = [Fin 10, Fin (- 300), Fin (- 400), Fin (- 150), Fin (- (1 / 20)), Fin (- 200)]
     \<and> map improved cs = [True, True, True, True, True, True]
     \<and> percentChange (hd cs) = Fin (40 / 3) \<and> percentChange (cs ! 1) = Fin (- 20)"
proof -
  have l1: "loadSummary host0 fs0 ''2024-01-15T10-30-00'' = Some summary_before"
    by (simp add: loadSummary_def host0_def fs0_def path_join_def)
  have l2: "loadSummary host0 fs0 ''2024-01-15T11-00-00'' = Some summary_after"
    by (simp add: loadSummary_def host0_def fs0_def path_join_def)
  show ?thesis
    using compareResults_polarity [OF l1 l2]
    by (simp add: summary_before_def summary_after_def)
qed

subsection \<open>What the batch needs of a save\<close>

lemma starts_with_extend: "starts_with s sub \<Longrightarrow> starts_with (s @ post) sub"
  by (induction s sub rule: starts_with.induct) simp_all

lemma starts_with_itself: "starts_with (sub @ post) sub"
  by (induction sub) simp_all

lemma str_includes_start: "starts_with s sub \<Longrightarrow> str_includes s sub"
  by (cases s) simp_all

lemma str_includes_extend: "str_includes s sub \<Longrightarrow> str_includes (s @ post) sub"
proof (induction s)
  case Nil
  then have "sub = []"
    by (cases sub) simp_all
  then show ?case
    by (simp add: str_includes_start)
next
  case (Cons d ds)
  then show ?case
    using starts_with_extend [of "d # ds" sub post] by auto
qed

lemma str_includes_prepend: "str_includes s sub \<Longrightarrow> str_includes (pre @ s) sub"
  by (induction pre) simp_all

lemma str_includes_copies:
  assumes "0 < k"
  shows "str_includes (old @ concat (replicate k line)) line"
proof -
  obtain n where k: "k = Suc n"
    using assms by (cases k) simp_all
  have "starts_with (line @ concat (replicate n line)) line"
    by (rule starts_with_itself)
  then have "str_includes (line @ concat (replicate n line)) line"
    by (rule str_includes_start)
  then have "str_includes (old @ line @ concat (replicate n line)) line"
    by (rule str_includes_prepend)
  then show ?thesis
    by (simp add: k)
qed

lemma summary_path_no_log: "\<not> ends_with (summary_path h options) ''.jsonl''"
  by (simp add: summary_path_def path_join_def ends_with_def)

lemma errs_refused_return: "errs_refused (io_return x)"
  by (simp add: errs_refused_def io_return_def)

lemma errs_refused_and_then:
  assumes "errs_refused m" and "\<And>x. errs_refused (f x)"
  shows "errs_refused (and_then m f)"
  unfolding errs_refused_def
proof (intro allI impI)
  fix s r s''
  assume run: "and_then m f s = (r, s'')"
  obtain r1 s1 where m: "m s = (r1, s1)"
    by (cases "m s")
  have d1: "denied s1 = denied s" and e1: "\<forall>e. r1 = Inl e \<longrightarrow> (\<exists>q. denied s q = Some e)"
    using assms(1) m unfolding errs_refused_def by blast+
  show "denied s'' = denied s \<and> (\<forall>e. r = Inl e \<longrightarrow> (\<exists>q. denied s q = Some e))"
  proof (cases r1)
    case (Inl e)
    then have "r = Inl e" and "s'' = s1"
      using run m by (simp_all add: and_then_def)
    then show ?thesis
      using d1 e1 Inl by simp
  next
    case (Inr x)
    then have "f x s1 = (r, s'')"
      using run m by (simp add: and_then_def)
    then have "denied s'' = denied s1" and "\<forall>e. r = Inl e \<longrightarrow> (\<exists>q. denied s1 q = Some e)"
      using assms(2) [of x] unfolding errs_refused_def by blast+
    then show ?thesis
      using d1 by simp
  qed
qed

lemma errs_refused_mkdirSync: "errs_refused (mkdirSync d)"
  by (auto simp: errs_refused_def mkdirSync_def split: option.splits)

lemma errs_refused_ensure_dir: "errs_refused (ensure_dir d)"
  by (auto simp: errs_refused_def ensure_dir_def mkdirSync_def split: option.splits if_splits)

lemma errs_refused_writeFileSync: "errs_refused (writeFileSync p text)"
  by (auto simp: errs_refused_def writeFileSync_def split: option.splits)

lemma errs_refused_appendFileSync: "errs_refused (appendFileSync p text)"
  by (auto simp: errs_refused_def appendFileSync_def split: option.splits)

lemma errs_refused_append_tags: "errs_refused (append_tags h ts line)"
  by (induction ts)
    (simp_all add: errs_refused_return errs_refused_and_then getLogPathForTag_def
      errs_refused_ensure_dir errs_refused_appendFileSync)

lemma errs_refused_appendToJsonlLog: "errs_refused (appendToJsonlLog h summary tags sid)"
  unfolding appendToJsonlLog_def Let_def
  by (intro errs_refused_and_then errs_refused_ensure_dir errs_refused_appendFileSync)
    (auto simp: errs_refused_return errs_refused_append_tags getLogPathForScenario_def
      intro!: errs_refused_and_then errs_refused_ensure_dir errs_refused_appendFileSync
      split: option.splits)

lemma errs_refused_saveResults: "errs_refused (saveResults h options)"
  unfolding saveResults_def Let_def ensureResultsDir_def
  by (intro errs_refused_and_then errs_refused_ensure_dir errs_refused_return errs_refused_mkdirSync
      errs_refused_writeFileSync errs_refused_appendToJsonlLog)

text \<open>
  A save leaves the permissions alone, throws only what the file system refuses with,
  only adds at the end of a log file, and adds all its lines when it returns.
\<close>

lemma saveResults_on_logs:
  assumes run: "saveResults h options s = (r, s')"
  shows "denied s' = denied s"
    and "\<forall>e. r = Inl e \<longrightarrow> (\<exists>q. denied s q = Some e)"
    and "\<forall>p. ends_with p ''.jsonl'' \<longrightarrow> (\<exists>suffix. content s' p = content s p @ suffix)"
    and "\<not> isl r \<longrightarrow> (\<forall>p. ends_with p ''.jsonl'' \<longrightarrow>
           content s' p = content s p
             @ concat (replicate (appended_lines h (save_tags options) (save_scenarioId options) p)
                 (saved_line h options)))"
proof -
  show "denied s' = denied s" and "\<forall>e. r = Inl e \<longrightarrow> (\<exists>q. denied s q = Some e)"
    using errs_refused_saveResults [of h options] run unfolding errs_refused_def by blast+
  have "summary_path h options \<in> {p. \<not> ends_with p ''.jsonl''}"
    by (simp add: summary_path_no_log)
  with run have "logged {p. \<not> ends_with p ''.jsonl''} (saved_line h options)
      (appended_lines h (save_tags options) (save_scenarioId options)) r s s'"
    by (rule logged_saveResults)
  then obtain k where w: "writes {p. \<not> ends_with p ''.jsonl''} (saved_line h options) k s s'"
    and e: "\<not> isl r \<longrightarrow> (\<forall>p. k p = appended_lines h (save_tags options) (save_scenarioId options) p)"
    unfolding logged_def by blast
  have c: "content s' p = content s p @ concat (replicate (k p) (saved_line h options))"
    if "ends_with p ''.jsonl''" for p
    using w that by (simp add: writes_def)
  show "\<forall>p. ends_with p ''.jsonl'' \<longrightarrow> (\<exists>suffix. content s' p = content s p @ suffix)"
    using c by blast
  show "\<not> isl r \<longrightarrow> (\<forall>p. ends_with p ''.jsonl'' \<longrightarrow>
           content s' p = content s p
             @ concat (replicate (appended_lines h (save_tags options) (save_scenarioId options) p)
                 (saved_line h options)))"
    using c e by simp
qed

section \<open>Properties of the batch command\<close>

subsection \<open>One scenario\<close>

lemma runScenario_rejects:
  "(runScenario ho args settings (fst t) (snd t) st = None)
   = (task_measurement ho args settings t = Inl Nullish)"
  by (auto simp: runScenario_def task_measurement_def Let_def
      split: sum.splits rejection.splits prod.splits)

lemma ran_to_completion_later:
  assumes "ran_to_completion args settings t out e s refusals"
    and "\<forall>p. ends_with p ''.jsonl'' \<longrightarrow> (\<exists>suffix. content s' p = content s p @ suffix)"
  shows "ran_to_completion args settings t out e s' refusals"
proof -
  have "str_includes (content s' p) x"
    if isLog: "ends_with p ''.jsonl''" and inc: "str_includes (content s p) x" for p x
  proof -
    obtain suffix where "content s' p = content s p @ suffix"
      using assms(2) isLog by blast
    then show ?thesis
      using inc by (simp add: str_includes_extend)
  qed
  then show ?thesis
    using assms(1) unfolding ran_to_completion_def by blast
qed

text \<open>
  A scenario that settles without rejecting adds one entry for itself and raises the
  counter that goes with the entry; a measurement that threw gives the failed entry, a
  measurement that returned is saved and gives the completed entry, or the failed one
  when the save was refused.
\<close>

lemma runScenario_step:
  assumes run: "runScenario ho args settings (fst t) (snd t) st = Some st'"
  shows "\<exists>e. results (batch st') = results (batch st) @ [e]
     \<and> res_scenario e = snd t
     \<and> completed (batch st') = completed (batch st) + (if res_summary e \<noteq> None then 1 else 0)
     \<and> failed (batch st') = failed (batch st) + (if res_summary e = None then 1 else 0)
     \<and> totalScenarios (batch st') = totalScenarios (batch st)
     \<and> denied (disk st') = denied (disk st)
     \<and> (\<forall>p. ends_with p ''.jsonl'' \<longrightarrow> (\<exists>suffix. content (disk st') p = content (disk st) p @ suffix))
     \<and> (\<forall>err. task_measurement ho args settings t = Inl (Thrown err)
            \<longrightarrow> e = failure_entry (fst t) (snd t) err)
     \<and> (\<forall>out. task_measurement ho args settings t = Inr out
            \<longrightarrow> ran_to_completion args settings t out e (disk st') (denied (disk st)))"
proof (cases "task_measurement ho args settings t")
  case (Inl rej)
  show ?thesis
  proof (cases rej)
    case Nullish
    then show ?thesis
      using run Inl runScenario_rejects [of ho args settings t st] by simp
  next
    case (Thrown err)
    then have m: "runMeasurements (task_browser (fst t)) ho (scenario_options args settings (snd t))
        = Inl (Thrown err)"
      using Inl by (simp add: task_measurement_def)
    have st': "st' = st\<lparr>batch := record_failure (fst t) (snd t) err (batch st)\<rparr>"
      using run m by (simp add: runScenario_def Let_def)
    show ?thesis
      unfolding st'
      by (intro exI [of _ "failure_entry (fst t) (snd t) err"])
        (simp add: record_failure_def failure_entry_def Inl Thrown)
  qed
next
  case (Inr out)
  then have m: "runMeasurements (task_browser (fst t)) ho (scenario_options args settings (snd t))
      = Inr out"
    by (simp add: task_measurement_def)
  define options where "options = scenario_save args settings (snd t) out"
  obtain r disk' where s: "saveResults (task_host (fst t)) options (disk st) = (r, disk')"
    by (cases "saveResults (task_host (fst t)) options (disk st)")
  note facts = saveResults_on_logs [OF s]
  have k: "appended_lines (task_host (fst t)) (save_tags options) (save_scenarioId options)
      = appended_lines (task_host (fst t)) (sc_tags (snd t)) (Some (sc_id (snd t)))"
    by (simp add: options_def scenario_save_def)
  show ?thesis
  proof (cases r)
    case (Inl serr)
    have st': "st' = st\<lparr>batch := record_failure (fst t) (snd t) serr (batch st), disk := disk'\<rparr>"
      using run m s Inl by (simp add: runScenario_def Let_def options_def)
    obtain q where q: "denied (disk st) q = Some serr"
      using facts(2) Inl by blast
    have "ran_to_completion args settings t out (failure_entry (fst t) (snd t) serr) disk' (denied (disk st))"
      unfolding ran_to_completion_def using q by blast
    then show ?thesis
      unfolding st' using facts(1,3) \<open>task_measurement ho args settings t = Inr out\<close>
      by (intro exI [of _ "failure_entry (fst t) (snd t) serr"])
        (simp add: record_failure_def failure_entry_def)
  next
    case (Inr sessionDir)
    have st': "st' = st\<lparr>batch := (batch st)
                       \<lparr>results := results (batch st) @ [success_entry (fst t) args settings (snd t) out],
                        completed := completed (batch st) + 1\<rparr>,
                     disk := disk'\<rparr>"
      using run m s Inr by (simp add: runScenario_def Let_def options_def)
    have inc: "str_includes (content disk' p) (saved_line (task_host (fst t)) options)"
      if "ends_with p ''.jsonl''"
        and "0 < appended_lines (task_host (fst t)) (sc_tags (snd t)) (Some (sc_id (snd t))) p" for p
    proof -
      have "content disk' p = content (disk st) p
             @ concat (replicate (appended_lines (task_host (fst t)) (sc_tags (snd t)) (Some (sc_id (snd t))) p)
                 (saved_line (task_host (fst t)) options))"
        using facts(4) Inr that(1) k by simp
      then show ?thesis
        using that(2) by (simp add: str_includes_copies)
    qed
    have "ran_to_completion args settings t out (success_entry (fst t) args settings (snd t) out)
        disk' (denied (disk st))"
      unfolding ran_to_completion_def using inc by (simp add: options_def)
    then show ?thesis
      unfolding st' using facts(1,3) \<open>task_measurement ho args settings t = Inr out\<close>
      by (intro exI [of _ "success_entry (fst t) args settings (snd t) out"])
        (simp add: success_entry_def)
  qed
qed

subsection \<open>Scenarios settling one after the other\<close>

lemma settle_all_effect:
  assumes "settle_all ho args settings order st = Some st'"
  shows "\<exists>es. results (batch st') = results (batch st) @ es
     \<and> map res_scenario es = map snd order
     \<and> completed (batch st') = completed (batch st) + length (filter (\<lambda>e. res_summary e \<noteq> None) es)
     \<and> failed (batch st') = failed (batch st) + length (filter (\<lambda>e. res_summary e = None) es)
     \<and> totalScenarios (batch st') = totalScenarios (batch st)
     \<and> denied (disk st') = denied (disk st)
     \<and> (\<forall>p. ends_with p ''.jsonl'' \<longrightarrow> (\<exists>suffix. content (disk st') p = content (disk st) p @ suffix))
     \<and> (\<forall>i err. i < length order \<and> task_measurement ho args settings (order ! i) = Inl (Thrown err)
            \<longrightarrow> es ! i = failure_entry (fst (order ! i)) (snd (order ! i)) err)
     \<and> (\<forall>i out. i < length order \<and> task_measurement ho args settings (order ! i) = Inr out
            \<longrightarrow> ran_to_completion args settings (order ! i) out (es ! i) (disk st') (denied (disk st)))"
  using assms
proof (induction order arbitrary: st)
  case Nil
  then show ?case
    by simp
next
  case (Cons t rest)
  obtain st1 where one: "runScenario ho args settings (fst t) (snd t) st = Some st1"
    and more: "settle_all ho args settings rest st1 = Some st'"
    using Cons.prems by (auto split: option.splits)
  obtain e where e1: "results (batch st1) = results (batch st) @ [e]"
    and e2: "res_scenario e = snd t"
    and e3: "completed (batch st1) = completed (batch st) + (if res_summary e \<noteq> None then 1 else 0)"
    and e4: "failed (batch st1) = failed (batch st) + (if res_summary e = None then 1 else 0)"
    and e5: "totalScenarios (batch st1) = totalScenarios (batch st)"
    and e6: "denied (disk st1) = denied (disk st)"
    and e7: "\<forall>p. ends_with p ''.jsonl'' \<longrightarrow> (\<exists>suffix. content (disk st1) p = content (disk st) p @ suffix)"
    and e8: "\<forall>err. task_measurement ho args settings t = Inl (Thrown err)
                \<longrightarrow> e = failure_entry (fst t) (snd t) err"
    and e9: "\<forall>out. task_measurement ho args settings t = Inr out
                \<longrightarrow> ran_to_completion args settings t out e (disk st1) (denied (disk st))"
    using runScenario_step [OF one] by blast
  obtain es where r1: "results (batch st') = results (batch st1) @ es"
    and r2: "map res_scenario es = map snd rest"
    and r3: "completed (batch st') = completed (batch st1) + length (filter (\<lambda>e. res_summary e \<noteq> None) es)"
    and r4: "failed (batch st') = failed (batch st1) + length (filter (\<lambda>e. res_summary e = None) es)"
    and r5: "totalScenarios (batch st') = totalScenarios (batch st1)"
    and r6: "denied (disk st') = denied (disk st1)"
    and r7: "\<forall>p. ends_with p ''.jsonl'' \<longrightarrow> (\<exists>suffix. content (disk st') p = content (disk st1) p @ suffix)"
    and r8: "\<forall>i err. i < length rest \<and> task_measurement ho args settings (rest ! i) = Inl (Thrown err)
                \<longrightarrow> es ! i = failure_entry (fst (rest ! i)) (snd (rest ! i)) err"
    and r9: "\<forall>i out. i < length rest \<and> task_measurement ho args settings (rest ! i) = Inr out
                \<longrightarrow> ran_to_completion args settings (rest ! i) out (es ! i) (disk st') (denied (disk st1))"
    using Cons.IH [OF more] by blast
  have c1: "results (batch st') = results (batch st) @ (e # es)"
    using e1 r1 by simp
  have c2: "map res_scenario (e # es) = map snd (t # rest)"
    using e2 r2 by simp
  have c3: "completed (batch st') = completed (batch st) + length (filter (\<lambda>e. res_summary e \<noteq> None) (e # es))"
    using e3 r3 by simp
  have c4: "failed (batch st') = failed (batch st) + length (filter (\<lambda>e. res_summary e = None) (e # es))"
    using e4 r4 by simp
  have c5: "totalScenarios (batch st') = totalScenarios (batch st)"
    using e5 r5 by simp
  have c6: "denied (disk st') = denied (disk st)"
    using e6 r6 by simp
  have c7: "\<forall>p. ends_with p ''.jsonl'' \<longrightarrow> (\<exists>suffix. content (disk st') p = content (disk st) p @ suffix)"
  proof (intro allI impI)
    fix p
    assume isLog: "ends_with p ''.jsonl''"
    obtain x where x: "content (disk st1) p = content (disk st) p @ x"
      using e7 isLog by blast
    obtain y where y: "content (disk st') p = content (disk st1) p @ y"
      using r7 isLog by blast
    show "\<exists>suffix. content (disk st') p = content (disk st) p @ suffix"
      using x y by simp
  qed
  have c8: "\<forall>i err. i < length (t # rest) \<and> task_measurement ho args settings ((t # rest) ! i) = Inl (Thrown err)
                \<longrightarrow> (e # es) ! i = failure_entry (fst ((t # rest) ! i)) (snd ((t # rest) ! i)) err"
  proof (intro allI impI)
    fix i err
    assume a: "i < length (t # rest) \<and> task_measurement ho args settings ((t # rest) ! i) = Inl (Thrown err)"
    show "(e # es) ! i = failure_entry (fst ((t # rest) ! i)) (snd ((t # rest) ! i)) err"
    proof (cases i)
      case 0
      then show ?thesis
        using a e8 by simp
    next
      case (Suc j)
      then show ?thesis
        using a r8 by simp
    qed
  qed
  have c9: "\<forall>i out. i < length (t # rest) \<and> task_measurement ho args settings ((t # rest) ! i) = Inr out
                \<longrightarrow> ran_to_completion args settings ((t # rest) ! i) out ((e # es) ! i) (disk st') (denied (disk st))"
  proof (intro allI impI)
    fix i out
    assume a: "i < length (t # rest) \<and> task_measurement ho args settings ((t # rest) ! i) = Inr out"
    show "ran_to_completion args settings ((t # rest) ! i) out ((e # es) ! i) (disk st') (denied (disk st))"
    proof (cases i)
      case 0
      then have "ran_to_completion args settings t out e (disk st1) (denied (disk st))"
        using a e9 by simp
      then have "ran_to_completion args settings t out e (disk st') (denied (disk st))"
        using r7 by (rule ran_to_completion_later)
      then show ?thesis
        using 0 by simp
    next
      case (Suc j)
      then have "ran_to_completion args settings (rest ! j) out (es ! j) (disk st') (denied (disk st1))"
        using a r9 by simp
      then show ?thesis
        using Suc e6 by simp
    qed
  qed
  show ?case
    using c1 c2 c3 c4 c5 c6 c7 c8 c9 by blast
qed

lemma settle_all_append:
  "settle_all ho args settings (xs @ ys) st
   = (case settle_all ho args settings xs st of
        None \<Rightarrow> None
      | Some st' \<Rightarrow> settle_all ho args settings ys st')"
  by (induction xs arbitrary: st) (simp_all split: option.splits)

lemma settle_all_settles:
  assumes "\<forall>t\<in>set order. task_measurement ho args settings t \<noteq> Inl Nullish"
  shows "\<exists>st'. settle_all ho args settings order st = Some st'"
  using assms
proof (induction order arbitrary: st)
  case Nil
  then show ?case
    by simp
next
  case (Cons t rest)
  have "runScenario ho args settings (fst t) (snd t) st \<noteq> None"
    using Cons.prems runScenario_rejects [of ho args settings t st] by simp
  then obtain st1 where "runScenario ho args settings (fst t) (snd t) st = Some st1"
    by blast
  then show ?case
    using Cons.IH [of st1] Cons.prems by simp
qed

subsection \<open>The two loops\<close>

lemma run_sequential_settle_all:
  "run_sequential ho args settings tasks st = Finished st'
   \<Longrightarrow> settle_all ho args settings tasks st = Some st'"
  by (induction ho args settings tasks st rule: run_sequential.induct)
    (auto split: option.splits)

lemma run_sequential_finishes:
  "settle_all ho args settings tasks st = Some st'
   \<Longrightarrow> run_sequential ho args settings tasks st = Finished st'"
  by (induction ho args settings tasks st rule: run_sequential.induct)
    (auto split: option.splits)

lemma run_sequential_never_spins: "run_sequential ho args settings tasks st \<noteq> Spins"
  by (induction ho args settings tasks st rule: run_sequential.induct)
    (auto split: option.splits)

lemma admit_keeps:
  "admit c queue running = (queue', running')
   \<Longrightarrow> running' @ queue' = running @ queue"
  by (induction queue arbitrary: running) (auto split: if_splits)

lemma admit_running:
  "admit c queue running = (queue', running') \<Longrightarrow> \<exists>added. running' = running @ added"
proof (induction queue arbitrary: running)
  case Nil
  then show ?case by simp
next
  case (Cons t rest)
  show ?case
  proof (cases "int (length running) < c")
    case True
    then have "admit c rest (running @ [t]) = (queue', running')"
      using Cons.prems by simp
    then obtain added where "running' = (running @ [t]) @ added"
      using Cons.IH by blast
    then show ?thesis by simp
  next
    case False
    then show ?thesis using Cons.prems by simp
  qed
qed

lemma admit_first:
  assumes "admit c queue running = (queue', running')"
    and "1 \<le> c \<or> queue = []"
    and "queue \<noteq> [] \<or> running \<noteq> []"
  shows "running' \<noteq> []"
proof (cases "running = []")
  case False
  then show ?thesis
    using admit_running [OF assms(1)] by auto
next
  case True
  then obtain t rest where q: "queue = t # rest"
    using assms(3) by (cases queue) auto
  then have "1 \<le> c"
    using assms(2) by simp
  then have "admit c rest [t] = (queue', running')"
    using assms(1) q True by simp
  then show ?thesis
    using admit_running [of c rest "[t]" queue' running'] by auto
qed

text \<open>
  A pool that finishes has settled every scenario of the queue and of those in flight,
  once each, in some order.
\<close>

lemma run_parallel_settle_all:
  "run_parallel ho args settings sched c queue running st = Finished st'
   \<Longrightarrow> \<exists>order. mset order = mset (queue @ running) \<and> settle_all ho args settings order st = Some st'"
proof (induction ho args settings sched c queue running st rule: run_parallel.induct)
  case (1 ho args settings sched c queue running st)
  show ?case
  proof (cases "length queue > 0 \<or> length running > 0")
    case False
    then have "st' = st"
      using "1.prems" by (subst (asm) run_parallel.simps) simp
    then show ?thesis
      using False by (intro exI [of _ "[]"]) simp
  next
    case True
    obtain queue' running' where a: "admit c queue running = (queue', running')"
      by (cases "admit c queue running")
    have nonempty: "length running' > 0"
      using "1.prems" True a by (subst (asm) run_parallel.simps) (auto split: if_splits)
    define k where "k = sched (length (results (batch st))) mod length running'"
    have k: "k < length running'"
      using nonempty by (simp add: k_def)
    obtain st1 where one: "runScenario ho args settings (fst (running' ! k)) (snd (running' ! k)) st = Some st1"
      and more: "run_parallel ho args settings sched c queue' (take k running' @ drop (Suc k) running') st1
                   = Finished st'"
      using "1.prems" True a nonempty
      by (subst (asm) run_parallel.simps) (auto simp: Let_def k_def split: option.splits)
    obtain order where o1: "mset order = mset (queue' @ take k running' @ drop (Suc k) running')"
      and o2: "settle_all ho args settings order st1 = Some st'"
      using "1.IH" [of queue' running' k st1, OF True a [symmetric] nonempty k_def one] more
      by blast
    have "running' = take k running' @ running' ! k # drop (Suc k) running'"
      using k by (rule id_take_nth_drop)
    then have "mset running' = mset (take k running' @ drop (Suc k) running') + {#running' ! k#}"
      by (metis mset.simps(2) mset_append union_mset_add_mset_right add.right_neutral add_mset_add_single)
    moreover have "mset (running' @ queue') = mset (running @ queue)"
      using admit_keeps [OF a] by simp
    ultimately have "mset (running' ! k # order) = mset (queue @ running)"
      using o1 by (simp add: ac_simps)
    moreover have "settle_all ho args settings (running' ! k # order) st = Some st'"
      using one o2 by simp
    ultimately show ?thesis
      by blast
  qed
qed

text \<open>
  With a bound of at least one the pool never goes round without awaiting, and it
  finishes when no scenario rejects.
\<close>

lemma run_parallel_never_spins:
  "1 \<le> c \<or> queue = [] \<Longrightarrow> run_parallel ho args settings sched c queue running st \<noteq> Spins"
proof (induction ho args settings sched c queue running st rule: run_parallel.induct)
  case (1 ho args settings sched c queue running st)
  show ?case
  proof (cases "length queue > 0 \<or> length running > 0")
    case False
    then show ?thesis
      by (subst run_parallel.simps) simp
  next
    case True
    obtain queue' running' where a: "admit c queue running = (queue', running')"
      by (cases "admit c queue running")
    have nonempty: "length running' > 0"
      using a "1.prems" True by (simp add: admit_first [of c queue running queue' running'])
    define k where "k = sched (length (results (batch st))) mod length running'"
    have q: "1 \<le> c \<or> queue' = []"
      using "1.prems" a by (cases queue) auto
    show ?thesis
    proof (cases "runScenario ho args settings (fst (running' ! k)) (snd (running' ! k)) st")
      case None
      then show ?thesis
        using True a nonempty by (subst run_parallel.simps) (simp add: k_def Let_def)
    next
      case (Some st1)
      have "run_parallel ho args settings sched c queue' (take k running' @ drop (Suc k) running') st1 \<noteq> Spins"
        using "1.IH" [of queue' running' k st1, OF True a [symmetric] nonempty k_def _ q] Some
        by simp
      then show ?thesis
        using True a nonempty Some by (subst run_parallel.simps) (simp add: k_def Let_def)
    qed
  qed
qed

lemma run_parallel_finishes:
  "1 \<le> c \<or> queue = []
   \<Longrightarrow> \<forall>t\<in>set (queue @ running). task_measurement ho args settings t \<noteq> Inl Nullish
   \<Longrightarrow> \<exists>st'. run_parallel ho args settings sched c queue running st = Finished st'"
proof (induction ho args settings sched c queue running st rule: run_parallel.induct)
  case (1 ho args settings sched c queue running st)
  show ?case
  proof (cases "length queue > 0 \<or> length running > 0")
    case False
    then show ?thesis
      by (subst run_parallel.simps) simp
  next
    case True
    obtain queue' running' where a: "admit c queue running = (queue', running')"
      by (cases "admit c queue running")
    have nonempty: "length running' > 0"
      using a "1.prems"(1) True by (simp add: admit_first [of c queue running queue' running'])
    define k where "k = sched (length (results (batch st))) mod length running'"
    have k: "k < length running'"
      using nonempty by (simp add: k_def)
    have q: "1 \<le> c \<or> queue' = []"
      using "1.prems"(1) a by (cases queue) auto
    have same: "set (running' @ queue') = set (queue @ running)"
      using admit_keeps [OF a] by (metis set_append Un_commute)
    have "running' ! k \<in> set (queue @ running)"
      using k same by (metis nth_mem set_append UnI1)
    then have "task_measurement ho args settings (running' ! k) \<noteq> Inl Nullish"
      using "1.prems"(2) by blast
    then have "runScenario ho args settings (fst (running' ! k)) (snd (running' ! k)) st \<noteq> None"
      using runScenario_rejects [of ho args settings "running' ! k" st] by simp
    then obtain st1 where one: "runScenario ho args settings (fst (running' ! k)) (snd (running' ! k)) st = Some st1"
      by blast
    have "set (queue' @ take k running' @ drop (Suc k) running') \<subseteq> set (running' @ queue')"
      using set_take_subset [of k running'] set_drop_subset [of "Suc k" running'] by auto
    then have rest: "\<forall>t\<in>set (queue' @ take k running' @ drop (Suc k) running').
        task_measurement ho args settings t \<noteq> Inl Nullish"
      using "1.prems"(2) same by blast
    have "\<exists>st'. run_parallel ho args settings sched c queue' (take k running' @ drop (Suc k) running') st1
        = Finished st'"
      using "1.IH" [of queue' running' k st1, OF True a [symmetric] nonempty k_def one q rest]
      by simp
    then show ?thesis
      using True a nonempty one by (subst run_parallel.simps) (simp add: k_def Let_def)
  qed
qed

subsection \<open>The whole batch\<close>

lemma tasks_of_facts:
  "map snd (tasks_of envs scs) = scs"
  "length (tasks_of envs scs) = length scs"
  "i < length scs \<Longrightarrow> tasks_of envs scs ! i = (envs i, scs ! i)"
  by (simp_all add: tasks_of_def)

lemma tasks_of_measurement:
  assumes "\<forall>j<length scs.
      runMeasurements (task_browser (envs j)) ho (scenario_options args settings (scs ! j)) \<noteq> Inl Nullish"
  shows "\<forall>t\<in>set (tasks_of envs scs). task_measurement ho args settings t \<noteq> Inl Nullish"
proof
  fix t
  assume "t \<in> set (tasks_of envs scs)"
  then obtain j where "j < length scs" and "t = (envs j, scs ! j)"
    using tasks_of_facts(2,3) [where envs = envs and scs = scs] by (metis in_set_conv_nth)
  then show "task_measurement ho args settings t \<noteq> Inl Nullish"
    using assms by (simp add: task_measurement_def)
qed

lemma execute_batch_finishes:
  assumes "1 \<le> c \<or> scs = []"
    and "\<forall>j<length scs.
      runMeasurements (task_browser (envs j)) ho (scenario_options args settings (scs ! j)) \<noteq> Inl Nullish"
  shows "\<exists>st. execute_batch ho args settings clock envs sched c scs d = Finished st"
proof -
  define st0 where "st0 = \<lparr>batch = new_batch clock args scs, disk = d\<rparr>"
  note quiet = tasks_of_measurement [OF assms(2)]
  show ?thesis
  proof (cases "c = 1")
    case True
    obtain st' where "settle_all ho args settings (tasks_of envs scs) st0 = Some st'"
      using settle_all_settles [OF quiet] by blast
    then have "run_sequential ho args settings (tasks_of envs scs) st0 = Finished st'"
      by (rule run_sequential_finishes)
    then show ?thesis
      using True by (simp add: execute_batch_def Let_def st0_def)
  next
    case False
    have "1 \<le> c \<or> tasks_of envs scs = []"
      using assms(1) by (auto simp: tasks_of_def)
    moreover have "\<forall>t\<in>set (tasks_of envs scs @ []). task_measurement ho args settings t \<noteq> Inl Nullish"
      using quiet by simp
    ultimately obtain st' where
      "run_parallel ho args settings sched c (tasks_of envs scs) [] st0 = Finished st'"
      using run_parallel_finishes by blast
    then show ?thesis
      using False by (simp add: execute_batch_def Let_def st0_def)
  qed
qed

lemma execute_batch_never_spins:
  assumes "1 \<le> c \<or> scs = []"
  shows "execute_batch ho args settings clock envs sched c scs d \<noteq> Spins"
proof (cases "c = 1")
  case True
  then show ?thesis
    using run_sequential_never_spins
    by (simp add: execute_batch_def Let_def split: batch_outcome.splits)
next
  case False
  have "1 \<le> c \<or> tasks_of envs scs = []"
    using assms by (auto simp: tasks_of_def)
  then have "run_parallel ho args settings sched c (tasks_of envs scs) []
      \<lparr>batch = new_batch clock args scs, disk = d\<rparr> \<noteq> Spins"
    by (rule run_parallel_never_spins)
  then show ?thesis
    using False by (simp add: execute_batch_def Let_def split: batch_outcome.splits)
qed

text \<open>
  A finished batch has settled its scenarios once each in some order, the order of the
  list when it ran sequentially, and holds their entries in that order.
\<close>

lemma execute_batch_result:
  assumes run: "execute_batch ho args settings clock envs sched c scs d = Finished st"
  shows "\<exists>order. mset order = mset (tasks_of envs scs)
     \<and> (c = 1 \<longrightarrow> order = tasks_of envs scs)
     \<and> map res_scenario (results (batch st)) = map snd order
     \<and> completed (batch st) = length (filter (\<lambda>e. res_summary e \<noteq> None) (results (batch st)))
     \<and> failed (batch st) = length (filter (\<lambda>e. res_summary e = None) (results (batch st)))
     \<and> totalScenarios (batch st) = length scs
     \<and> (\<forall>k err. k < length order \<and> task_measurement ho args settings (order ! k) = Inl (Thrown err)
            \<longrightarrow> results (batch st) ! k = failure_entry (fst (order ! k)) (snd (order ! k)) err)
     \<and> (\<forall>k out. k < length order \<and> task_measurement ho args settings (order ! k) = Inr out
            \<longrightarrow> ran_to_completion args settings (order ! k) out (results (batch st) ! k) (disk st) (denied d))"
proof -
  define st0 where "st0 = \<lparr>batch = new_batch clock args scs, disk = d\<rparr>"
  define tasks where "tasks = tasks_of envs scs"
  define processed where "processed =
      (if c = 1 then run_sequential ho args settings tasks st0
       else run_parallel ho args settings sched c tasks [] st0)"
  obtain st' where p: "processed = Finished st'"
    and st: "st = st'\<lparr>batch := (batch st')\<lparr>duration := clock_duration clock,
                                         completedAt := clock_completedAt clock\<rparr>\<rparr>"
    using run unfolding execute_batch_def Let_def processed_def tasks_def st0_def
    by (auto split: batch_outcome.splits)
  have "\<exists>order. mset order = mset tasks \<and> (c = 1 \<longrightarrow> order = tasks)
      \<and> settle_all ho args settings order st0 = Some st'"
  proof (cases "c = 1")
    case True
    then have "settle_all ho args settings tasks st0 = Some st'"
      using p by (simp add: processed_def run_sequential_settle_all)
    then show ?thesis
      by blast
  next
    case False
    then have "run_parallel ho args settings sched c tasks [] st0 = Finished st'"
      using p by (simp add: processed_def)
    then show ?thesis
      using False run_parallel_settle_all [of ho args settings sched c tasks "[]" st0 st'] by auto
  qed
  then obtain order where o1: "mset order = mset tasks" and o2: "c = 1 \<longrightarrow> order = tasks"
    and o3: "settle_all ho args settings order st0 = Some st'"
    by blast
  obtain es where r1: "results (batch st') = results (batch st0) @ es"
    and r2: "map res_scenario es = map snd order"
    and r3: "completed (batch st') = completed (batch st0) + length (filter (\<lambda>e. res_summary e \<noteq> None) es)"
    and r4: "failed (batch st') = failed (batch st0) + length (filter (\<lambda>e. res_summary e = None) es)"
    and r5: "totalScenarios (batch st') = totalScenarios (batch st0)"
    and r8: "\<forall>i err. i < length order \<and> task_measurement ho args settings (order ! i) = Inl (Thrown err)
                \<longrightarrow> es ! i = failure_entry (fst (order ! i)) (snd (order ! i)) err"
    and r9: "\<forall>i out. i < length order \<and> task_measurement ho args settings (order ! i) = Inr out
                \<longrightarrow> ran_to_completion args settings (order ! i) out (es ! i) (disk st') (denied (disk st0))"
    using settle_all_effect [OF o3] by blast
  have es: "results (batch st) = es"
    using r1 by (simp add: st st0_def new_batch_def)
  have c1: "completed (batch st) = length (filter (\<lambda>e. res_summary e \<noteq> None) (results (batch st)))"
    using r3 es by (simp add: st st0_def new_batch_def)
  have c2: "failed (batch st) = length (filter (\<lambda>e. res_summary e = None) (results (batch st)))"
    using r4 es by (simp add: st st0_def new_batch_def)
  have c3: "totalScenarios (batch st) = length scs"
    using r5 by (simp add: st st0_def new_batch_def)
  have c4: "disk st = disk st'" and c5: "denied (disk st0) = denied d"
    by (simp_all add: st st0_def)
  show ?thesis
    using o1 o2 r2 r8 r9 c1 c2 c3 unfolding es c4 c5 tasks_def by blast
qed

text \<open>The same, scenario by scenario.\<close>

lemma execute_batch_entries:
  assumes run: "execute_batch ho args settings clock envs sched c scs d = Finished st"
  shows "mset (map res_scenario (results (batch st))) = mset scs"
    and "length (results (batch st)) = length scs"
    and "completed (batch st) = length (filter (\<lambda>e. res_summary e \<noteq> None) (results (batch st)))"
    and "failed (batch st) = length (filter (\<lambda>e. res_summary e = None) (results (batch st)))"
    and "totalScenarios (batch st) = length scs"
    and "c = 1 \<Longrightarrow> map res_scenario (results (batch st)) = scs"
    and "\<And>j err. j < length scs
          \<Longrightarrow> runMeasurements (task_browser (envs j)) ho (scenario_options args settings (scs ! j))
                = Inl (Thrown err)
          \<Longrightarrow> failure_entry (envs j) (scs ! j) err \<in> set (results (batch st))
              \<and> (c = 1 \<longrightarrow> results (batch st) ! j = failure_entry (envs j) (scs ! j) err)"
    and "\<And>j out. j < length scs
          \<Longrightarrow> runMeasurements (task_browser (envs j)) ho (scenario_options args settings (scs ! j))
                = Inr out
          \<Longrightarrow> \<exists>e\<in>set (results (batch st)).
                ran_to_completion args settings (envs j, scs ! j) out e (disk st) (denied d)"
proof -
  obtain order where o1: "mset order = mset (tasks_of envs scs)"
    and o2: "c = 1 \<longrightarrow> order = tasks_of envs scs"
    and o3: "map res_scenario (results (batch st)) = map snd order"
    and o4: "completed (batch st) = length (filter (\<lambda>e. res_summary e \<noteq> None) (results (batch st)))"
    and o5: "failed (batch st) = length (filter (\<lambda>e. res_summary e = None) (results (batch st)))"
    and o6: "totalScenarios (batch st) = length scs"
    and o7: "\<forall>k err. k < length order \<and> task_measurement ho args settings (order ! k) = Inl (Thrown err)
            \<longrightarrow> results (batch st) ! k = failure_entry (fst (order ! k)) (snd (order ! k)) err"
    and o8: "\<forall>k out. k < length order \<and> task_measurement ho args settings (order ! k) = Inr out
            \<longrightarrow> ran_to_completion args settings (order ! k) out (results (batch st) ! k) (disk st) (denied d)"
    using execute_batch_result [OF run] by blast
  have len: "length (results (batch st)) = length order"
    using o3 by (metis length_map)
  have "mset (map snd order) = mset (map snd (tasks_of envs scs))"
    using o1 by (metis mset_map)
  then show "mset (map res_scenario (results (batch st))) = mset scs"
    using o3 by (simp add: tasks_of_facts)
  have "length order = length (tasks_of envs scs)"
    using o1 by (metis size_mset)
  then show l: "length (results (batch st)) = length scs"
    using len by (simp add: tasks_of_facts)
  show "completed (batch st) = length (filter (\<lambda>e. res_summary e \<noteq> None) (results (batch st)))"
    by (rule o4)
  show "failed (batch st) = length (filter (\<lambda>e. res_summary e = None) (results (batch st)))"
    by (rule o5)
  show "totalScenarios (batch st) = length scs"
    by (rule o6)
  show "map res_scenario (results (batch st)) = scs" if "c = 1"
    using o2 o3 that by (simp add: tasks_of_facts)
  have place: "\<exists>k<length order. order ! k = (envs j, scs ! j) \<and> (c = 1 \<longrightarrow> k = j)"
    if j: "j < length scs" for j
  proof (cases "c = 1")
    case True
    then show ?thesis
      using o2 j by (simp add: tasks_of_facts)
  next
    case False
    have "(envs j, scs ! j) \<in> set (tasks_of envs scs)"
      using j tasks_of_facts(2,3) [where envs = envs and scs = scs] by (metis nth_mem)
    then have "(envs j, scs ! j) \<in> set order"
      using o1 by (metis set_mset_mset)
    then show ?thesis
      using False by (metis in_set_conv_nth)
  qed
  show "failure_entry (envs j) (scs ! j) err \<in> set (results (batch st))
      \<and> (c = 1 \<longrightarrow> results (batch st) ! j = failure_entry (envs j) (scs ! j) err)"
    if j: "j < length scs"
      and m: "runMeasurements (task_browser (envs j)) ho (scenario_options args settings (scs ! j))
                = Inl (Thrown err)" for j err
  proof -
    obtain k where k: "k < length order" and ok: "order ! k = (envs j, scs ! j)"
      and seq: "c = 1 \<longrightarrow> k = j"
      using place [OF j] by blast
    have "task_measurement ho args settings (order ! k) = Inl (Thrown err)"
      using m ok by (simp add: task_measurement_def)
    then have e: "results (batch st) ! k = failure_entry (envs j) (scs ! j) err"
      using o7 k ok by simp
    moreover have "results (batch st) ! k \<in> set (results (batch st))"
      using k len by simp
    ultimately show ?thesis
      using seq by auto
  qed
  show "\<exists>e\<in>set (results (batch st)).
      ran_to_completion args settings (envs j, scs ! j) out e (disk st) (denied d)"
    if j: "j < length scs"
      and m: "runMeasurements (task_browser (envs j)) ho (scenario_options args settings (scs ! j))
                = Inr out" for j out
  proof -
    obtain k where k: "k < length order" and ok: "order ! k = (envs j, scs ! j)"
      using place [OF j] by blast
    have "task_measurement ho args settings (order ! k) = Inr out"
      using m ok by (simp add: task_measurement_def)
    then have "ran_to_completion args settings (envs j, scs ! j) out (results (batch st) ! k) (disk st) (denied d)"
      using o8 k ok by (metis (no_types))
    moreover have "results (batch st) ! k \<in> set (results (batch st))"
      using k len by simp
    ultimately show ?thesis
      by blast
  qed
qed

subsection \<open>The concrete batch\<close>

lemma chrome0_measures:
  "runMeasurements chrome0 ho options
   = Inr (summarise (map (\<lambda>j. extract_metrics (if j = 1 then report0 (4 / 5) 1500 else report0 (9 / 10) 1200))
                      [1..opt_runs options]))"
proof -
  have "run_loop chrome0 (opt_url options) 1 (opt_runs options) []
      = Inr ([] @ map (\<lambda>j. extract_metrics (if j = 1 then report0 (4 / 5) 1500 else report0 (9 / 10) 1200))
                     [1..opt_runs options])"
    by (rule run_loop_all) (simp add: runSingleMeasurement_def chrome0_def)
  then show ?thesis
    by (intro runMeasurements_ok) (simp_all add: chrome0_def)
qed

lemma envs0_measurement:
  "runMeasurements (task_browser (envs0 j)) ho options \<noteq> Inl Nullish"
  by (cases "j = 1") (simp_all add: envs0_def chrome0_measures, simp add: runMeasurements_def)

subsection \<open>The counters of a finished batch\<close>

text \<open>
  C1. For every filtered scenario list and every concurrency bound, whatever the
  schedule and whatever the measurements and the saves do: once the batch finishes,
  \<open>completed + failed = totalScenarios = length results\<close>, and \<open>totalScenarios\<close> is the
  number of filtered scenarios. Whenever the bound is at least 1 or there is no scenario,
  the batch does not go round its loop for ever, and it does finish unless a measurement
  rejects with \<open>undefined\<close> or \<open>null\<close>, which ends the command before the batch completes.
\<close>

theorem execute_batch_counters:
  "(\<forall>st. execute_batch ho args settings clock envs sched c scs d = Finished st \<longrightarrow>
        completed (batch st) + failed (batch st) = totalScenarios (batch st)
      \<and> totalScenarios (batch st) = length (results (batch st))
      \<and> totalScenarios (batch st) = length scs)
   \<and> (1 \<le> c \<or> scs = [] \<longrightarrow>
        execute_batch ho args settings clock envs sched c scs d \<noteq> Spins
      \<and> ((\<forall>j<length scs.
             runMeasurements (task_browser (envs j)) ho (scenario_options args settings (scs ! j))
               \<noteq> Inl Nullish)
          \<longrightarrow> (\<exists>st. execute_batch ho args settings clock envs sched c scs d = Finished st)))"
proof (intro conjI allI impI)
  fix st
  assume run: "execute_batch ho args settings clock envs sched c scs d = Finished st"
  note r = execute_batch_entries [OF run]
  have "length (filter (\<lambda>e. res_summary e \<noteq> None) (results (batch st)))
      + length (filter (\<lambda>e. res_summary e = None) (results (batch st)))
      = length (results (batch st))"
    using sum_length_filter_compl [of "\<lambda>e. res_summary e \<noteq> None" "results (batch st)"] by simp
  then show "completed (batch st) + failed (batch st) = totalScenarios (batch st)"
    using r(2,3,4,5) by simp
  show "totalScenarios (batch st) = length (results (batch st))"
    using r(2,5) by simp
  show "totalScenarios (batch st) = length scs"
    by (rule r(5))
next
  assume "1 \<le> c \<or> scs = []"
  then show "execute_batch ho args settings clock envs sched c scs d \<noteq> Spins"
    by (rule execute_batch_never_spins)
next
  assume "1 \<le> c \<or> scs = []"
    and "\<forall>j<length scs.
          runMeasurements (task_browser (envs j)) ho (scenario_options args settings (scs ! j))
            \<noteq> Inl Nullish"
  then show "\<exists>st. execute_batch ho args settings clock envs sched c scs d = Finished st"
    by (rule execute_batch_finishes)
qed

theorem execute_batch_counters_witness:
  "\<exists>st. execute_batch False args0 settings0 clock0 envs0 sched0 2 scenarios0 fs0 = Finished st
     \<and> completed (batch st) + failed (batch st) = 3
     \<and> totalScenarios (batch st) = 3
     \<and> length (results (batch st)) = 3"
proof -
  have bound: "(1::int) \<le> 2 \<or> scenarios0 = []"
    by simp
  have quiet: "\<forall>j<length scenarios0.
      runMeasurements (task_browser (envs0 j)) False (scenario_options args0 settings0 (scenarios0 ! j))
        \<noteq> Inl Nullish"
    by (simp add: envs0_measurement)
  obtain st where run: "execute_batch False args0 settings0 clock0 envs0 sched0 2 scenarios0 fs0 = Finished st"
    using execute_batch_counters [of False args0 settings0 clock0 envs0 sched0 2 scenarios0 fs0]
      bound quiet
    by blast
  have "completed (batch st) + failed (batch st) = totalScenarios (batch st)
      \<and> totalScenarios (batch st) = length (results (batch st))
      \<and> totalScenarios (batch st) = length scenarios0"
    using execute_batch_counters [of False args0 settings0 clock0 envs0 sched0 2 scenarios0 fs0] run
    by blast
  then show ?thesis
    using run by (simp add: scenarios0_def)
qed

subsection \<open>A measurement that throws\<close>




end
